theory Spec2Isabelle
  imports Complex_Main "HOL-Library.Word" "HOL-Library.Log_Nat"
begin

section \<open>Single-precision arithmetic\<close>

text \<open>
  The firmware computes in C \<^verbatim>\<open>float\<close> (IEEE 754 binary32, round to nearest, ties to
  even; the ESP8266 has no floating-point unit, every operation is rounded to binary32 at
  once).  A finite value is kept as the rational number it denotes; the infinities and the
  NaNs are each one further value, their sign is not tracked (no operation below observes
  it, nor the sign of a zero).
\<close>

datatype f32 = F32 rat | F32_Inf | F32_NaN

text \<open>\<open>ilog2 x\<close> is the exponent \<open>e\<close> with \<open>2^e \<le> |x| < 2^(e+1)\<close>, for \<open>x \<noteq> 0\<close>.\<close>

definition ilog2 :: "rat \<Rightarrow> int" where
  "ilog2 x = (case quotient_of \<bar>x\<bar> of (p, q) \<Rightarrow>
     let d = bitlen p - bitlen q in if 2 powi d \<le> \<bar>x\<bar> then d else d - 1)"

text \<open>Round to the nearest integer, a tie to the even one.\<close>

definition rne :: "rat \<Rightarrow> int" where
  "rne x = (let f = \<lfloor>x\<rfloor>; d = x - of_int f in
     if d < 1/2 then f else if 1/2 < d then f + 1 else if even f then f else f + 1)"

text \<open>
  Rounding to 24 significant bits, the exponent of the last place not below \<open>-149\<close>
  (gradual underflow), the exponent range unbounded above.
\<close>

definition fround :: "rat \<Rightarrow> rat" where
  "fround x = (if x = 0 then 0 else
     let e = max (ilog2 x - 23) (- 149) in of_int (rne (x / 2 powi e)) * 2 powi e)"

text \<open>The binary32 value of a real result: overflow gives an infinity.\<close>

definition to_f32 :: "rat \<Rightarrow> f32" where
  "to_f32 x = (let r = fround x in if \<bar>r\<bar> < 2 ^ 128 then F32 r else F32_Inf)"

fun fmul :: "f32 \<Rightarrow> f32 \<Rightarrow> f32" where
  "fmul (F32 a) (F32 b) = to_f32 (a * b)"
| "fmul F32_NaN _ = F32_NaN"
| "fmul _ F32_NaN = F32_NaN"
| "fmul F32_Inf (F32 b) = (if b = 0 then F32_NaN else F32_Inf)"
| "fmul (F32 a) F32_Inf = (if a = 0 then F32_NaN else F32_Inf)"
| "fmul F32_Inf F32_Inf = F32_Inf"

fun fdiv :: "f32 \<Rightarrow> f32 \<Rightarrow> f32" where
  "fdiv (F32 a) (F32 b) =
     (if b = 0 then (if a = 0 then F32_NaN else F32_Inf) else to_f32 (a / b))"
| "fdiv F32_NaN _ = F32_NaN"
| "fdiv _ F32_NaN = F32_NaN"
| "fdiv F32_Inf (F32 b) = F32_Inf"
| "fdiv (F32 a) F32_Inf = F32 0"
| "fdiv F32_Inf F32_Inf = F32_NaN"

text \<open>\<^verbatim>\<open>long\<close> and \<^verbatim>\<open>int\<close> are 32 bits wide on the ESP8266; arithmetic wraps.\<close>

type_synonym long = "32 word"
type_synonym int32 = "32 word"

text \<open>The conversion of a \<^verbatim>\<open>long\<close> operand to \<^verbatim>\<open>float\<close>.\<close>

definition long_to_float :: "long \<Rightarrow> f32" where
  "long_to_float n = to_f32 (of_int (sint n))"

text \<open>Rounding to the nearest integer, a tie away from zero.\<close>

definition round_away :: "rat \<Rightarrow> int" where
  "round_away x = (if 0 \<le> x then \<lfloor>x + 1/2\<rfloor> else - \<lfloor>- x + 1/2\<rfloor>)"

text \<open>
  \<^verbatim>\<open>lroundf\<close>: the C library leaves the result unspecified when the rounded value is not
  a \<^verbatim>\<open>long\<close>, or the argument is not finite; that is \<open>None\<close>.
\<close>

fun lroundf :: "f32 \<Rightarrow> long option" where
  "lroundf (F32 x) = (let n = round_away x in
     if - (2 ^ 31) \<le> n \<and> n < 2 ^ 31 then Some (word_of_int n) else None)"
| "lroundf F32_Inf = None"
| "lroundf F32_NaN = None"

section \<open>GearedStepper\<close>

text \<open>
  The output lines: a store from pin number to level, shared by every object that was given
  the pin (both drivers are wired to the same enable and select lines).
\<close>

type_synonym pin = "8 word"
type_synonym gpio = "pin \<Rightarrow> bool"

definition LOW :: bool where "LOW = False"
definition HIGH :: bool where "HIGH = True"

definition digitalWrite :: "pin \<Rightarrow> bool \<Rightarrow> gpio \<Rightarrow> gpio" where
  "digitalWrite p v io = io(p := v)"

text \<open>
  The class \<^verbatim>\<open>GearedStepper\<close>.  The member \<^verbatim>\<open>_stepper\<close> is an \<^verbatim>\<open>AccelStepper\<close> of the
  AccelStepper library, which is not part of this repository: its state is the type
  parameter \<open>'m\<close>, and its operations are the parameters collected in \<open>library\<close> below.
\<close>

record 'm GearedStepper =
  enable_pin :: pin
  ms1_pin :: pin
  ms2_pin :: pin
  ms3_pin :: pin
  base_steps_per_rot :: long
  gear_ratio :: f32
  microstep_resolution :: int32
  stepper :: 'm

record 'm library =
  as_setMaxSpeed :: "f32 \<Rightarrow> 'm \<Rightarrow> 'm"
  as_setAcceleration :: "f32 \<Rightarrow> 'm \<Rightarrow> 'm"
  as_move :: "long \<Rightarrow> 'm \<Rightarrow> 'm"
  as_run :: "'m \<Rightarrow> bool \<times> 'm"
  as_stop :: "'m \<Rightarrow> 'm"
  as_distanceToGo :: "'m \<Rightarrow> long"
  sscanf_ff :: "string \<Rightarrow> int \<times> f32 \<times> f32"

text \<open>The constructor: the resolution starts at 1.\<close>

definition GearedStepper ::
  "'m \<Rightarrow> pin \<Rightarrow> pin \<Rightarrow> pin \<Rightarrow> pin \<Rightarrow> long \<Rightarrow> f32 \<Rightarrow> 'm GearedStepper" where
  "GearedStepper m en ms1 ms2 ms3 base_steps ratio =
     \<lparr>enable_pin = en, ms1_pin = ms1, ms2_pin = ms2, ms3_pin = ms3,
      base_steps_per_rot = base_steps, gear_ratio = ratio,
      microstep_resolution = 1, stepper = m\<rparr>"

definition setMaxSpeed :: "'m library \<Rightarrow> f32 \<Rightarrow> 'm GearedStepper \<Rightarrow> 'm GearedStepper" where
  "setMaxSpeed L v g = g\<lparr>stepper := as_setMaxSpeed L v (stepper g)\<rparr>"

definition setAcceleration :: "'m library \<Rightarrow> f32 \<Rightarrow> 'm GearedStepper \<Rightarrow> 'm GearedStepper" where
  "setAcceleration L a g = g\<lparr>stepper := as_setAcceleration L a (stepper g)\<rparr>"

definition move :: "'m library \<Rightarrow> long \<Rightarrow> 'm GearedStepper \<Rightarrow> 'm GearedStepper" where
  "move L rel g = g\<lparr>stepper := as_move L rel (stepper g)\<rparr>"

definition run :: "'m library \<Rightarrow> 'm GearedStepper \<Rightarrow> bool \<times> 'm GearedStepper" where
  "run L g = (case as_run L (stepper g) of (b, m) \<Rightarrow> (b, g\<lparr>stepper := m\<rparr>))"

definition stop :: "'m library \<Rightarrow> 'm GearedStepper \<Rightarrow> 'm GearedStepper" where
  "stop L g = g\<lparr>stepper := as_stop L (stepper g)\<rparr>"

definition distanceToGo :: "'m library \<Rightarrow> 'm GearedStepper \<Rightarrow> long" where
  "distanceToGo L g = as_distanceToGo L (stepper g)"

definition enable :: "'m GearedStepper \<Rightarrow> gpio \<Rightarrow> gpio" where
  "enable g io = digitalWrite (enable_pin g) LOW io"

definition disable :: "'m GearedStepper \<Rightarrow> gpio \<Rightarrow> gpio" where
  "disable g io = digitalWrite (enable_pin g) HIGH io"

text \<open>
  \<^verbatim>\<open>setMicrostepResolution\<close>: the assignment to \<^verbatim>\<open>_microstep_resolution\<close> comes first,
  then the \<^verbatim>\<open>switch\<close>, which has five cases and no default.
\<close>

definition write_ms :: "'m GearedStepper \<Rightarrow> bool \<Rightarrow> bool \<Rightarrow> bool \<Rightarrow> gpio \<Rightarrow> gpio" where
  "write_ms g v1 v2 v3 io =
     digitalWrite (ms3_pin g) v3 (digitalWrite (ms2_pin g) v2 (digitalWrite (ms1_pin g) v1 io))"

definition setMicrostepResolution ::
  "int32 \<Rightarrow> 'm GearedStepper \<times> gpio \<Rightarrow> 'm GearedStepper \<times> gpio" where
  "setMicrostepResolution res gio = (case gio of (g, io) \<Rightarrow>
     let g' = g\<lparr>microstep_resolution := res\<rparr> in
     if res = 1 then (g', write_ms g LOW LOW LOW io)
     else if res = 2 then (g', write_ms g HIGH LOW LOW io)
     else if res = 4 then (g', write_ms g LOW HIGH LOW io)
     else if res = 8 then (g', write_ms g HIGH HIGH LOW io)
     else if res = 16 then (g', write_ms g HIGH HIGH HIGH io)
     else (g', io))"

definition getMicrostepResolution :: "'m GearedStepper \<Rightarrow> int32" where
  "getMicrostepResolution g = microstep_resolution g"

text \<open>\<^verbatim>\<open>begin\<close>; \<^verbatim>\<open>pinMode\<close> sets no level.\<close>

definition begin_stepper :: "'m GearedStepper \<times> gpio \<Rightarrow> 'm GearedStepper \<times> gpio" where
  "begin_stepper gio = (case gio of (g, io) \<Rightarrow> setMicrostepResolution 16 (g, disable g io))"

definition getGearRatio :: "'m GearedStepper \<Rightarrow> f32" where
  "getGearRatio g = gear_ratio g"

definition getBaseStepsPerRotation :: "'m GearedStepper \<Rightarrow> long" where
  "getBaseStepsPerRotation g = base_steps_per_rot g"

text \<open>
  \<^verbatim>\<open>float GearedStepper::maxSpeed() const { return maxSpeed(); }\<close>: the body is a call of
  the member function itself.  A call that does not return is \<open>None\<close>.
\<close>

partial_function (option) maxSpeed :: "'m GearedStepper \<Rightarrow> f32 option" where
  "maxSpeed g = maxSpeed g"

partial_function (option) acceleration :: "'m GearedStepper \<Rightarrow> f32 option" where
  "acceleration g = acceleration g"

text \<open>\<^verbatim>\<open>lroundf(_base_steps_per_rot * _gear_ratio)\<close>: the product is a \<^verbatim>\<open>float\<close> product.\<close>

definition getOutputStepsPerRotation :: "'m GearedStepper \<Rightarrow> long option" where
  "getOutputStepsPerRotation g =
     lroundf (fmul (long_to_float (base_steps_per_rot g)) (gear_ratio g))"

section \<open>The command dispatcher (main.cpp)\<close>

definition FW_VERSION :: string where "FW_VERSION = ''1.0.1''"

definition MOTOR_STEPS_PER_REV :: long where "MOTOR_STEPS_PER_REV = 100"
definition GEAR_RATIO_TT :: f32 where "GEAR_RATIO_TT = to_f32 (11335 / 1000)"
definition GEAR_RATIO_VT :: f32 where
  "GEAR_RATIO_VT = fmul (to_f32 (62 / 10)) (to_f32 (75 / 10))"
definition RATIO_TT_TO_VT :: f32 where "RATIO_TT_TO_VT = fdiv GEAR_RATIO_VT GEAR_RATIO_TT"
definition ROT_SPEED0 :: f32 where "ROT_SPEED0 = to_f32 150"
definition ROT_ACCEL0 :: f32 where "ROT_ACCEL0 = to_f32 80"

text \<open>
  The file-scope objects: the two steppers, the direction of each \<^verbatim>\<open>Axis\<close> (\<^verbatim>\<open>rot.s\<close>
  and \<^verbatim>\<open>til.s\<close> are references to the two steppers), and the output lines.
\<close>

record 'm world =
  turntableStepper :: "'m GearedStepper"
  tiltStepper :: "'m GearedStepper"
  rot_dir :: int32
  til_dir :: int32
  gpio :: gpio

definition degToMicrosteps :: "'m GearedStepper \<Rightarrow> f32 \<Rightarrow> long option" where
  "degToMicrosteps stp deg = (case getOutputStepsPerRotation stp of
       None \<Rightarrow> None
     | Some osr \<Rightarrow>
         let mu = osr * getMicrostepResolution stp
         in lroundf (fmul (fdiv deg (F32 360)) (long_to_float mu)))"

definition setRotaryMotorSpeed :: "'m library \<Rightarrow> f32 \<Rightarrow> f32 \<Rightarrow> 'm world \<Rightarrow> 'm world" where
  "setRotaryMotorSpeed L v a w =
     w\<lparr>turntableStepper := setAcceleration L a (setMaxSpeed L v (turntableStepper w)),
       tiltStepper := setAcceleration L (fmul a RATIO_TT_TO_VT)
                        (setMaxSpeed L (fmul v RATIO_TT_TO_VT) (tiltStepper w))\<rparr>"

text \<open>\<^verbatim>\<open>isspace\<close> in the C locale, and \<^verbatim>\<open>String::trim\<close>.\<close>

definition isspace :: "char \<Rightarrow> bool" where
  "isspace c = (c = CHR '' '' \<or> c = CHR 0x09 \<or> c = CHR 0x0A \<or> c = CHR 0x0B
                \<or> c = CHR 0x0C \<or> c = CHR 0x0D)"

definition trim :: "string \<Rightarrow> string" where
  "trim s = rev (dropWhile isspace (rev (dropWhile isspace s)))"

text \<open>\<^verbatim>\<open>line.c_str() + 1\<close>: the characters after the first, up to the first NUL.\<close>

definition c_str_from1 :: "string \<Rightarrow> string" where
  "c_str_from1 line = takeWhile (\<lambda>c. c \<noteq> CHR 0x00) (tl line)"

text \<open>\<^verbatim>\<open>strchr(s, c) != NULL\<close>: the terminating NUL of \<open>s\<close> is searched as well.\<close>

definition strchr :: "string \<Rightarrow> char \<Rightarrow> bool" where
  "strchr s c = (c \<in> set s \<or> c = CHR 0x00)"

text \<open>The decimal text of an \<^verbatim>\<open>int\<close>, as \<^verbatim>\<open>String + int\<close> appends it.\<close>

function decimal_nat :: "nat \<Rightarrow> string" where
  "decimal_nat n = (if n < 10 then [char_of (48 + n)]
                    else decimal_nat (n div 10) @ [char_of (48 + n mod 10)])"
  by pat_completeness auto
termination
  by (relation "measure id") auto

definition decimal :: "int32 \<Rightarrow> string" where
  "decimal i = (if sint i < 0 then CHR ''-'' # decimal_nat (nat (- sint i))
                else decimal_nat (nat (sint i)))"

text \<open>
  The body of \<^verbatim>\<open>loop\<close> from \<^verbatim>\<open>line.trim()\<close> on, for the line that was read.  The result
  is the new state and the lines written by \<^verbatim>\<open>ack\<close>; \<open>None\<close> when the body does not
  return, or calls \<^verbatim>\<open>lroundf\<close> where its result is unspecified.
\<close>

definition dispatch :: "'m library \<Rightarrow> string \<Rightarrow> 'm world \<Rightarrow> ('m world \<times> string list) option" where
  "dispatch L raw w = (let line = trim raw in
     if line = [] then Some (w, [])
     else let c = hd line in
     if c = CHR ''V'' \<or> c = CHR ''v'' then Some (w, [''VERSION '' @ FW_VERSION])
     else if c = CHR ''M'' \<or> c = CHR ''m'' then
       (case sscanf_ff L (c_str_from1 line) of (n, panDeg, tiltDeg) \<Rightarrow>
          if n \<noteq> 2 then Some (w, [''ERR Syntax''])
          else (case degToMicrosteps (turntableStepper w) panDeg of
                  None \<Rightarrow> None
                | Some ps \<Rightarrow>
               (case degToMicrosteps (tiltStepper w) tiltDeg of
                  None \<Rightarrow> None
                | Some ts \<Rightarrow>
                    Some (w\<lparr>gpio := enable (tiltStepper w) (enable (turntableStepper w) (gpio w)),
                            turntableStepper := move L ps (turntableStepper w),
                            tiltStepper := move L ts (tiltStepper w)\<rparr>,
                          [''OK M'']))))
     else if c = CHR ''Q'' \<or> c = CHR ''q'' then
       (if distanceToGo L (turntableStepper w) \<noteq> 0 \<or> distanceToGo L (tiltStepper w) \<noteq> 0
        then Some (w, [''BUSY''])
        else Some (w\<lparr>gpio := disable (tiltStepper w) (disable (turntableStepper w) (gpio w))\<rparr>,
                   [''DONE'']))
     else if strchr ''12486'' c then
       (let res = (if c = CHR ''6'' then 16 else of_char c - of_char CHR ''0'') in
        case setMicrostepResolution res (turntableStepper w, gpio w) of (tt, io1) \<Rightarrow>
        case setMicrostepResolution res (tiltStepper w, io1) of (vt, io2) \<Rightarrow>
          Some (w\<lparr>turntableStepper := tt, tiltStepper := vt, gpio := io2\<rparr>,
                [''OK MICROSTEP '' @ decimal res]))
     else if c = CHR ''n'' \<or> c = CHR ''N'' then
       Some (w\<lparr>turntableStepper := move L (rot_dir w) (turntableStepper w)\<rparr>, [''OK ROT STEP''])
     else if c = CHR ''c'' \<or> c = CHR ''C'' then
       (case getOutputStepsPerRotation (turntableStepper w) of
          None \<Rightarrow> None
        | Some osr \<Rightarrow>
            let r = osr * getMicrostepResolution (turntableStepper w)
            in Some (w\<lparr>turntableStepper := move L (rot_dir w * r) (turntableStepper w)\<rparr>,
                     [''OK ROT REV'']))
     else if c = CHR ''r'' \<or> c = CHR ''R'' then
       Some (w\<lparr>rot_dir := - rot_dir w\<rparr>, [''OK ROT DIR''])
     else if c = CHR ''x'' \<or> c = CHR ''X'' then
       Some (w\<lparr>turntableStepper := stop L (turntableStepper w)\<rparr>, [''OK ROT STOP''])
     else if c = CHR ''w'' \<or> c = CHR ''W'' then
       Some (w\<lparr>tiltStepper := move L (til_dir w) (tiltStepper w)\<rparr>, [''OK TILT STEP''])
     else if c = CHR ''p'' \<or> c = CHR ''P'' then
       (case getOutputStepsPerRotation (tiltStepper w) of
          None \<Rightarrow> None
        | Some osr \<Rightarrow>
            let r = osr * getMicrostepResolution (tiltStepper w)
            in Some (w\<lparr>tiltStepper := move L (til_dir w * r) (tiltStepper w)\<rparr>,
                     [''OK TILT REV'']))
     else if c = CHR ''t'' \<or> c = CHR ''T'' then
       Some (w\<lparr>til_dir := - til_dir w\<rparr>, [''OK TILT DIR''])
     else if c = CHR ''z'' then
       Some (w\<lparr>tiltStepper := stop L (tiltStepper w)\<rparr>, [''OK TILT STOP''])
     else if c = CHR ''+'' \<or> c = CHR ''-'' then
       (let f = (if c = CHR ''+'' then to_f32 (110 / 100) else to_f32 (90 / 100)) in
        case maxSpeed (turntableStepper w) of
          None \<Rightarrow> None
        | Some v \<Rightarrow> Some (setRotaryMotorSpeed L (fmul v f) (fmul ROT_ACCEL0 f) w, [''OK SPEED'']))
     else if c = CHR ''X'' then
       Some (w\<lparr>turntableStepper := stop L (turntableStepper w),
               tiltStepper := stop L (tiltStepper w)\<rparr>, [''OK STOP''])
     else if c = CHR ''d'' \<or> c = CHR ''D'' then
       Some (w\<lparr>gpio := disable (tiltStepper w) (disable (turntableStepper w) (gpio w))\<rparr>,
             [''OK DRIVERS OFF''])
     else if c = CHR ''e'' \<or> c = CHR ''E'' then
       Some (w\<lparr>gpio := enable (tiltStepper w) (enable (turntableStepper w) (gpio w))\<rparr>,
             [''OK DRIVERS ON''])
     else Some (w, [''ERR Unknown'']))"

text \<open>
  \<^verbatim>\<open>loop\<close>: both steppers run, then the line is dispatched when one is available
  (\<open>input = Some raw\<close>, \<open>raw\<close> what \<^verbatim>\<open>readStringUntil\<close> returned).
\<close>

definition loop :: "'m library \<Rightarrow> string option \<Rightarrow> 'm world \<Rightarrow> ('m world \<times> string list) option" where
  "loop L input w =
     (let w1 = w\<lparr>turntableStepper := snd (run L (turntableStepper w)),
                 tiltStepper := snd (run L (tiltStepper w))\<rparr>
      in case input of None \<Rightarrow> Some (w1, []) | Some raw \<Rightarrow> dispatch L raw w1)"

text \<open>
  The objects as they are constructed at file scope, and \<^verbatim>\<open>setup\<close> (the banner it prints
  is left out).
\<close>

definition initial_world :: "'m \<Rightarrow> 'm \<Rightarrow> pin \<Rightarrow> pin \<Rightarrow> pin \<Rightarrow> pin \<Rightarrow> gpio \<Rightarrow> 'm world" where
  "initial_world m1 m2 en ms1 ms2 ms3 io =
     \<lparr>turntableStepper = GearedStepper m1 en ms1 ms2 ms3 MOTOR_STEPS_PER_REV GEAR_RATIO_TT,
      tiltStepper = GearedStepper m2 en ms1 ms2 ms3 MOTOR_STEPS_PER_REV GEAR_RATIO_VT,
      rot_dir = 1, til_dir = 1, gpio = io\<rparr>"

definition setup_main :: "'m library \<Rightarrow> 'm world \<Rightarrow> 'm world" where
  "setup_main L w =
     (case begin_stepper (turntableStepper w, gpio w) of (tt, io1) \<Rightarrow>
      case begin_stepper (tiltStepper w, io1) of (vt, io2) \<Rightarrow>
        setRotaryMotorSpeed L ROT_SPEED0 ROT_ACCEL0
          (w\<lparr>turntableStepper := tt, tiltStepper := vt, gpio := io2\<rparr>))"

section \<open>sscanf\<close>

text \<open>
  \<^verbatim>\<open>sscanf\<close> belongs to the C library.  What follows is the conversion of decimal input by
  \<^verbatim>\<open>"%f %f"\<close> as the C standard describes it: each \<^verbatim>\<open>%f\<close> skips white space and takes the
  longest text that is an optional sign, digits with at most one point, and an optional
  exponent.  Three kinds of input are left open, \<open>Other\<close>: a spelling of infinity or NaN, a
  hexadecimal number, and an exponent mark without digits, on which C libraries differ.
\<close>

definition is_digit :: "char \<Rightarrow> bool" where
  "is_digit c = ((48::nat) \<le> of_char c \<and> of_char c \<le> (57::nat))"

definition digits_val :: "string \<Rightarrow> nat" where
  "digits_val ds = foldl (\<lambda>v c. 10 * v + (of_char c - 48)) 0 ds"

definition scan_sign :: "string \<Rightarrow> bool \<times> string" where
  "scan_sign s = (case s of
       [] \<Rightarrow> (False, s)
     | c # r \<Rightarrow> if c = CHR ''-'' then (True, r) else if c = CHR ''+'' then (False, r) else (False, s))"

definition other_spelling :: "string \<Rightarrow> bool" where
  "other_spelling s = (case s of
       [] \<Rightarrow> False
     | a # t \<Rightarrow>
         (a = CHR ''0'' \<and> t \<noteq> [] \<and> hd t \<in> set ''xX'')
       \<or> (a \<in> set ''iI'' \<and> (case t of b # c # u \<Rightarrow> b \<in> set ''nN'' \<and> c \<in> set ''fF'' | _ \<Rightarrow> False))
       \<or> (a \<in> set ''nN'' \<and> (case t of b # c # u \<Rightarrow> b \<in> set ''aA'' \<and> c \<in> set ''nN'' | _ \<Rightarrow> False)))"

text \<open>One \<^verbatim>\<open>%f\<close> conversion: the value and the rest of the input, no match, or left open.\<close>

datatype conv = Conv f32 string | Fail | Other

definition scan_f :: "string \<Rightarrow> conv" where
  "scan_f s =
     (case scan_sign (dropWhile isspace s) of (neg, s1) \<Rightarrow>
      if other_spelling s1 then Other
      else
        let ip = takeWhile is_digit s1; s2 = dropWhile is_digit s1;
            dot = (s2 \<noteq> [] \<and> hd s2 = CHR ''.'');
            fp = (if dot then takeWhile is_digit (tl s2) else []);
            s3 = (if dot then dropWhile is_digit (tl s2) else s2);
            mant = (of_nat (digits_val (ip @ fp)) :: rat) / 10 ^ length fp
        in if ip = [] \<and> fp = [] then Fail
           else if s3 \<noteq> [] \<and> hd s3 \<in> set ''eE'' then
             (case scan_sign (tl s3) of (eneg, s4) \<Rightarrow>
                let ed = takeWhile is_digit s4; ex = int (digits_val ed)
                in if ed = [] then Other
                   else Conv (to_f32 ((if neg then - mant else mant)
                                       * 10 powi (if eneg then - ex else ex)))
                             (dropWhile is_digit s4))
           else Conv (to_f32 (if neg then - mant else mant)) s3)"

text \<open>
  The count that \<^verbatim>\<open>sscanf(s, "%f %f", &panDeg, &tiltDeg)\<close> returns (\<open>-1\<close> is \<^verbatim>\<open>EOF\<close>) and the
  two variables, which start at 0.
\<close>

definition c_sscanf :: "string \<Rightarrow> (int \<times> f32 \<times> f32) option" where
  "c_sscanf s = (case scan_f s of
       Other \<Rightarrow> None
     | Fail \<Rightarrow> Some (if dropWhile isspace s = [] then - 1 else 0, F32 0, F32 0)
     | Conv a r \<Rightarrow>
         (case scan_f r of
            Other \<Rightarrow> None
          | Fail \<Rightarrow> Some (1, a, F32 0)
          | Conv b r' \<Rightarrow> Some (2, a, b)))"

section \<open>A bench instance of the library\<close>

text \<open>
  A plain motion primitive, and a scanner that takes the input left open above as no match,
  to run the dispatcher on concrete input.  The theorems below hold for every library; this
  one only instantiates them.
\<close>

record motor =
  currentPos :: long
  targetPos :: long
  motorMaxSpeed :: f32
  motorAcceleration :: f32

definition motor0 :: motor where
  "motor0 = \<lparr>currentPos = 0, targetPos = 0, motorMaxSpeed = F32 1, motorAcceleration = F32 1\<rparr>"

definition bench_sscanf :: "string \<Rightarrow> int \<times> f32 \<times> f32" where
  "bench_sscanf s = (case c_sscanf s of Some r \<Rightarrow> r | None \<Rightarrow> (0, F32 0, F32 0))"

definition bench :: "motor library" where
  "bench = \<lparr>as_setMaxSpeed = (\<lambda>v m. m\<lparr>motorMaxSpeed := v\<rparr>),
            as_setAcceleration = (\<lambda>a m. m\<lparr>motorAcceleration := a\<rparr>),
            as_move = (\<lambda>rel m. m\<lparr>targetPos := currentPos m + rel\<rparr>),
            as_run = (\<lambda>m. if targetPos m = currentPos m then (False, m)
                           else (True, m\<lparr>currentPos := (if sint (targetPos m - currentPos m) < 0
                                           then currentPos m - 1 else currentPos m + 1)\<rparr>)),
            as_stop = (\<lambda>m. m\<lparr>targetPos := currentPos m\<rparr>),
            as_distanceToGo = (\<lambda>m. targetPos m - currentPos m),
            sscanf_ff = bench_sscanf\<rparr>"

text \<open>The state after \<^verbatim>\<open>setup\<close>, with the enable line on pin 16 and the select lines on 5, 4, 0.\<close>

definition bench_world :: "motor world" where
  "bench_world = setup_main bench (initial_world motor0 motor0 16 5 4 0 (\<lambda>p. False))"

text \<open>The bench state after the line \<open>M 45 90\<close>: both steppers have a distance to go.\<close>

definition bench_moving :: "motor world" where
  "bench_moving = (case dispatch bench ''M 45 90'' bench_world of
                     Some (w, out) \<Rightarrow> w | None \<Rightarrow> bench_world)"

section \<open>The words of the specification\<close>

text \<open>The command character of a line: its first character that is not white space.\<close>

definition command_char :: "string \<Rightarrow> char option" where
  "command_char raw = (case dropWhile isspace raw of [] \<Rightarrow> None | c # rest \<Rightarrow> Some c)"









text \<open>
  The two formulas of the specification in exact arithmetic, \<open>round\<close> rounding a tie away
  from zero: \<^verbatim>\<open>round(basestepsPerMotorRev * gearRatio)\<close> and
  \<^verbatim>\<open>round(degrees / 360 * outputStepsPerRotation * microstepResolution)\<close>.
\<close>

definition spec_outputStepsPerRev :: "int \<Rightarrow> rat \<Rightarrow> int" where
  "spec_outputStepsPerRev basestepsPerMotorRev gearRatio =
     round_away (of_int basestepsPerMotorRev * gearRatio)"

definition spec_degreesToPulses :: "rat \<Rightarrow> int \<Rightarrow> int \<Rightarrow> int" where
  "spec_degreesToPulses degrees outputStepsPerRotation microstepResolution =
     round_away (degrees / 360 * of_int outputStepsPerRotation * of_int microstepResolution)"

section \<open>The dispatcher: which branch a line takes\<close>

lemma trim_head:
  assumes "command_char raw = Some c"
  shows "trim raw \<noteq> [] \<and> hd (trim raw) = c"
proof -
  obtain rest where r: "dropWhile isspace raw = c # rest"
    using assms by (auto simp: command_char_def split: list.splits)
  have nc: "\<not> isspace c"
    using r by (metis hd_dropWhile list.sel(1) list.simps(3))
  have "rev (dropWhile isspace raw) = rev rest @ [c]"
    using r by simp
  then have "dropWhile isspace (rev (dropWhile isspace raw)) = dropWhile isspace (rev rest) @ [c]"
    using nc by (simp add: dropWhile_append3)
  then show ?thesis
    by (simp add: trim_def)
qed

text \<open>The member function that calls itself returns for no object.\<close>

lemma maxSpeed_diverges: "maxSpeed g = None"
proof (cases "maxSpeed g")
  case None
  then show ?thesis .
next
  case (Some y)
  have False
    by (rule maxSpeed.raw_induct [where P = "\<lambda>_ _. False", OF _ Some])
  then show ?thesis ..
qed

lemma maxSpeed_code [code]: "maxSpeed g = None"
  by (rule maxSpeed_diverges)

lemma acceleration_diverges: "acceleration g = None"
proof (cases "acceleration g")
  case None
  then show ?thesis .
next
  case (Some y)
  have False
    by (rule acceleration.raw_induct [where P = "\<lambda>_ _. False", OF _ Some])
  then show ?thesis ..
qed

lemma dispatch_never_OK_STOP:
  "dispatch L raw w = Some (w', out) \<Longrightarrow> out \<noteq> [''OK STOP'']"
  unfolding dispatch_def Let_def
  apply (simp split: if_split_asm option.split_asm prod.split_asm)
                      apply fastforce+
  done

text \<open>
  C2.  A line whose first non-blank character is \<open>X\<close> stops the pan stepper, leaves the tilt
  stepper and everything else as they were, and replies \<open>OK ROT STOP\<close>: the case \<open>'X'\<close> of
  the pan \<^verbatim>\<open>switch\<close> comes before the test for the global stop.  No line and no state make
  the dispatcher reply \<open>OK STOP\<close>.
\<close>

theorem X_stops_pan_only:
  "(command_char raw = Some CHR ''X'' \<longrightarrow>
      dispatch L raw w =
        Some (w\<lparr>turntableStepper := stop L (turntableStepper w)\<rparr>, [''OK ROT STOP'']))
   \<and> (\<forall>raw' w0 w'. dispatch L raw' w0 \<noteq> Some (w', [''OK STOP'']))"
proof (intro conjI impI allI)
  assume "command_char raw = Some CHR ''X''"
  from trim_head [OF this]
  show "dispatch L raw w =
        Some (w\<lparr>turntableStepper := stop L (turntableStepper w)\<rparr>, [''OK ROT STOP''])"
    by (simp add: dispatch_def Let_def strchr_def)
next
  fix raw' w0 w'
  show "dispatch L raw' w0 \<noteq> Some (w', [''OK STOP''])"
    using dispatch_never_OK_STOP [of L raw' w0 w' "[''OK STOP'']"] by blast
qed

theorem X_stops_pan_only_witness:
  "command_char ''X'' = Some CHR ''X'' \<and>
   dispatch bench ''X'' bench_world =
     Some (bench_world\<lparr>turntableStepper := stop bench (turntableStepper bench_world)\<rparr>,
           [''OK ROT STOP''])"
proof -
  have h: "command_char ''X'' = Some CHR ''X''"
    by code_simp
  show ?thesis
    using h X_stops_pan_only [of "''X''" bench bench_world] by simp
qed

text \<open>
  C3.  A \<open>+\<close> or \<open>-\<close> line is to scale the speed of both axes by 1.10 or 0.90 and reply
  \<open>OK SPEED\<close>, reading the pan speed back through \<^verbatim>\<open>GearedStepper::maxSpeed()\<close>.  In the code
  \<^verbatim>\<open>maxSpeed()\<close> calls itself where its siblings call \<^verbatim>\<open>_stepper\<close>, so it returns for no
  stepper, and neither line is answered.
\<close>

theorem speed_adjust_never_replies:
  "maxSpeed g = None \<and> dispatch L ''+'' w = None \<and> dispatch L ''-'' w = None"
  by (simp add: maxSpeed_diverges dispatch_def Let_def strchr_def trim_def isspace_def)

theorem speed_adjust_never_replies_witness:
  "dispatch bench ''+'' bench_world = None \<and> dispatch bench ''-'' bench_world = None"
  using speed_adjust_never_replies [of "turntableStepper bench_world" bench bench_world]
  by simp

text \<open>
  C4.  A \<open>Q\<close> line replies \<open>BUSY\<close> exactly when the distance to go of one of the steppers is
  not zero, and then the state is unchanged; otherwise it replies \<open>DONE\<close>, and only the
  output lines change: the enable line of each stepper is high (driver disabled).
\<close>

theorem Q_busy_or_done:
  assumes "command_char raw = Some c" and "c = CHR ''Q'' \<or> c = CHR ''q''"
  shows "(distanceToGo L (turntableStepper w) \<noteq> 0 \<or> distanceToGo L (tiltStepper w) \<noteq> 0
            \<longrightarrow> dispatch L raw w = Some (w, [''BUSY'']))
       \<and> (distanceToGo L (turntableStepper w) = 0 \<and> distanceToGo L (tiltStepper w) = 0
            \<longrightarrow> (\<exists>io. dispatch L raw w = Some (w\<lparr>gpio := io\<rparr>, [''DONE''])
                     \<and> io (enable_pin (turntableStepper w)) = HIGH
                     \<and> io (enable_pin (tiltStepper w)) = HIGH))
       \<and> ((\<exists>w'. dispatch L raw w = Some (w', [''BUSY'']))
            \<longleftrightarrow> (distanceToGo L (turntableStepper w) \<noteq> 0 \<or> distanceToGo L (tiltStepper w) \<noteq> 0))"
proof -
  from trim_head [OF assms(1)] assms(2)
  have d: "dispatch L raw w =
      (if distanceToGo L (turntableStepper w) \<noteq> 0 \<or> distanceToGo L (tiltStepper w) \<noteq> 0
       then Some (w, [''BUSY''])
       else Some (w\<lparr>gpio := disable (tiltStepper w) (disable (turntableStepper w) (gpio w))\<rparr>,
                  [''DONE'']))"
    by (auto simp add: dispatch_def Let_def)
  show ?thesis
    unfolding d by (auto simp add: disable_def digitalWrite_def HIGH_def)
qed

theorem Q_busy_or_done_witness:
  "dispatch bench ''Q'' bench_moving = Some (bench_moving, [''BUSY''])
   \<and> (\<exists>io. dispatch bench ''q'' bench_world = Some (bench_world\<lparr>gpio := io\<rparr>, [''DONE'']))"
proof -
  have c1: "command_char ''Q'' = Some CHR ''Q''" and c2: "command_char ''q'' = Some CHR ''q''"
    by code_simp+
  have b: "distanceToGo bench (turntableStepper bench_moving) \<noteq> 0"
    by code_simp
  have i: "distanceToGo bench (turntableStepper bench_world) = 0
           \<and> distanceToGo bench (tiltStepper bench_world) = 0"
    by code_simp
  show ?thesis
    using Q_busy_or_done [OF c1, of bench bench_moving] Q_busy_or_done [OF c2, of bench bench_world] b i
    by blast
qed

subsection \<open>The \<open>M\<close> line and its numbers\<close>









lemma bench_sscanf_conforming: "c_sscanf s = Some r \<Longrightarrow> bench_sscanf s = r"
  by (simp add: bench_sscanf_def)





lemma M_two_fields_in_one_token:
  "map_option snd (dispatch bench ''M 1.2.3 4'' bench_world) = Some [''OK M'']"
  by code_simp

text \<open>
  C8.  A line whose command character is the capital \<open>Z\<close> is answered \<open>ERR Unknown\<close> and
  changes nothing; the tilt \<^verbatim>\<open>switch\<close> has a case for the small \<open>z\<close> only, which stops the
  tilt stepper.
\<close>

theorem Z_is_unknown:
  "(command_char raw = Some CHR ''Z'' \<longrightarrow> dispatch L raw w = Some (w, [''ERR Unknown'']))
   \<and> (command_char raw = Some CHR ''z'' \<longrightarrow>
        dispatch L raw w = Some (w\<lparr>tiltStepper := stop L (tiltStepper w)\<rparr>, [''OK TILT STOP'']))"
proof (intro conjI impI)
  assume "command_char raw = Some CHR ''Z''"
  from trim_head [OF this]
  show "dispatch L raw w = Some (w, [''ERR Unknown''])"
    by (simp add: dispatch_def Let_def strchr_def)
next
  assume "command_char raw = Some CHR ''z''"
  from trim_head [OF this]
  show "dispatch L raw w = Some (w\<lparr>tiltStepper := stop L (tiltStepper w)\<rparr>, [''OK TILT STOP''])"
    by (simp add: dispatch_def Let_def strchr_def)
qed

theorem Z_is_unknown_witness:
  "dispatch bench ''Z'' bench_world = Some (bench_world, [''ERR Unknown''])"
proof -
  have h: "command_char ''Z'' = Some CHR ''Z''"
    by code_simp
  show ?thesis
    using h Z_is_unknown [of "''Z''" bench bench_world] by simp
qed

section \<open>The microstep resolution\<close>

lemma setMicrostepResolution_fst:
  "fst (setMicrostepResolution res (g, io)) = g\<lparr>microstep_resolution := res\<rparr>"
  by (simp add: setMicrostepResolution_def Let_def)

lemma setMicrostepResolution_other_pin:
  "p \<noteq> ms1_pin g \<Longrightarrow> p \<noteq> ms2_pin g \<Longrightarrow> p \<noteq> ms3_pin g \<Longrightarrow>
   snd (setMicrostepResolution res (g, io)) p = io p"
  by (simp add: setMicrostepResolution_def Let_def write_ms_def digitalWrite_def)

text \<open>
  C1.  A resolution other than 1, 2, 4, 8, 16 is to be ignored, the stored resolution
  keeping its value.  In the code the select lines are indeed left alone, but the value is
  stored before it is looked at: \<^verbatim>\<open>getMicrostepResolution\<close> then returns it.  The dispatcher
  itself passes such a value, -48, for a line that is one NUL character, which \<^verbatim>\<open>strchr\<close>
  finds at the end of \<open>12486\<close>.
\<close>

theorem setMicrostepResolution_stores_invalid:
  assumes "res \<notin> {1, 2, 4, 8, 16}"
  shows "setMicrostepResolution res (g, io) = (g\<lparr>microstep_resolution := res\<rparr>, io)"
  using assms by (simp add: setMicrostepResolution_def Let_def)

theorem setMicrostepResolution_stores_invalid_witness:
  "getMicrostepResolution (turntableStepper bench_world) = 16
   \<and> getMicrostepResolution
        (fst (setMicrostepResolution 3 (turntableStepper bench_world, gpio bench_world))) = 3"
proof -
  have h: "(3 :: int32) \<notin> {1, 2, 4, 8, 16}"
    by simp
  have "getMicrostepResolution (turntableStepper bench_world) = 16"
    by code_simp
  then show ?thesis
    using setMicrostepResolution_stores_invalid [OF h, of "turntableStepper bench_world" "gpio bench_world"]
    by (simp add: getMicrostepResolution_def)
qed

lemma nul_line_sets_resolution:
  "dispatch L [CHR 0x00] w =
     Some (w\<lparr>turntableStepper := (turntableStepper w)\<lparr>microstep_resolution := - 48\<rparr>,
             tiltStepper := (tiltStepper w)\<lparr>microstep_resolution := - 48\<rparr>\<rparr>,
           [''OK MICROSTEP -48''])"
proof -
  have d: "decimal (- 48) = ''-48''"
    by code_simp
  have r: "setMicrostepResolution (- 48) (g, io) = (g\<lparr>microstep_resolution := - 48\<rparr>, io)"
    for g :: "'a GearedStepper" and io
    by (simp add: setMicrostepResolution_def Let_def)
  show ?thesis
    by (simp add: dispatch_def Let_def strchr_def trim_def isspace_def r d)
qed

lemma getOutputStepsPerRotation_frame:
  "getOutputStepsPerRotation (g\<lparr>microstep_resolution := res\<rparr>) = getOutputStepsPerRotation g"
  by (simp add: getOutputStepsPerRotation_def)

lemma foldl_setMicrostepResolution:
  "getOutputStepsPerRotation (fst (foldl (\<lambda>gio res. setMicrostepResolution res gio) gio rs))
     = getOutputStepsPerRotation (fst gio)"
proof (induction rs arbitrary: gio)
  case Nil
  show ?case by simp
next
  case (Cons r rs)
  obtain g io where gio: "gio = (g, io)" by (cases gio)
  show ?case
    using Cons [of "setMicrostepResolution r gio"]
    by (simp add: gio setMicrostepResolution_fst [of r g io] getOutputStepsPerRotation_frame)
qed

section \<open>The enable lines\<close>

lemma dispatch_gpio:
  assumes "dispatch L raw w = Some (w', out)"
  shows "gpio w' = gpio w
       \<or> (hd (trim raw) \<in> set ''MmEe'' \<and>
           gpio w' = enable (tiltStepper w) (enable (turntableStepper w) (gpio w)))
       \<or> gpio w' = disable (tiltStepper w) (disable (turntableStepper w) (gpio w))
       \<or> (\<exists>res. gpio w' = snd (setMicrostepResolution res (tiltStepper w,
                              snd (setMicrostepResolution res (turntableStepper w, gpio w)))))"
  using assms
  unfolding dispatch_def Let_def
  apply (simp add: case_prod_beta split: if_split_asm option.split_asm)
                      apply (fastforce simp add: setRotaryMotorSpeed_def)+
  done


lemma enable_only_by_M_e:
  assumes d: "dispatch L raw w = Some (w', out)"
    and c: "command_char raw = Some c" "c \<notin> set ''MmEe''"
    and p: "p \<notin> {ms1_pin (turntableStepper w), ms2_pin (turntableStepper w), ms3_pin (turntableStepper w),
                  ms1_pin (tiltStepper w), ms2_pin (tiltStepper w), ms3_pin (tiltStepper w)}"
    and h: "gpio w p = HIGH"
  shows "gpio w' p = HIGH"
proof -
  have ms: "snd (setMicrostepResolution res (tiltStepper w,
              snd (setMicrostepResolution res (turntableStepper w, gpio w)))) p = HIGH" for res
    using p h by (simp add: setMicrostepResolution_other_pin)
  have dis: "disable (tiltStepper w) (disable (turntableStepper w) (gpio w)) p = HIGH"
    using h by (simp add: disable_def digitalWrite_def)
  have t: "hd (trim raw) = c" using trim_head[OF c(1)] by simp
  from dispatch_gpio[OF d] show ?thesis
    using c(2) h ms dis unfolding t by auto
qed


lemma jog_keeps_gpio:
  assumes "command_char raw = Some c" and "c \<in> set ''nNcCwWpP''"
    and "dispatch L raw w = Some (w', out)"
  shows "gpio w' = gpio w"
  using trim_head[OF assms(1)] assms(2,3)
  by (auto simp add: dispatch_def Let_def strchr_def split: option.splits)


lemma pan_step_result:
  assumes "command_char raw = Some c" and "c \<in> set ''nN''"
  shows "dispatch L raw w =
           Some (w\<lparr>turntableStepper := move L (rot_dir w) (turntableStepper w)\<rparr>,
                 [''OK ROT STEP''])"
  using trim_head [OF assms(1)] assms(2)
  by (auto simp add: dispatch_def Let_def strchr_def)

lemma tilt_step_result:
  assumes "command_char raw = Some c" and "c \<in> set ''wW''"
  shows "dispatch L raw w =
           Some (w\<lparr>tiltStepper := move L (til_dir w) (tiltStepper w)\<rparr>, [''OK TILT STEP''])"
  using trim_head [OF assms(1)] assms(2)
  by (auto simp add: dispatch_def Let_def strchr_def)

lemma pan_rev_result:
  assumes "command_char raw = Some c" and "c \<in> set ''cC''"
    and "getOutputStepsPerRotation (turntableStepper w) = Some osr"
  shows "dispatch L raw w =
           Some (w\<lparr>turntableStepper :=
                     move L (rot_dir w * (osr * getMicrostepResolution (turntableStepper w)))
                       (turntableStepper w)\<rparr>,
                 [''OK ROT REV''])"
  using trim_head [OF assms(1)] assms(2,3)
  by (auto simp add: dispatch_def Let_def strchr_def)

lemma tilt_rev_result:
  assumes "command_char raw = Some c" and "c \<in> set ''pP''"
    and "getOutputStepsPerRotation (tiltStepper w) = Some osr"
  shows "dispatch L raw w =
           Some (w\<lparr>tiltStepper :=
                     move L (til_dir w * (osr * getMicrostepResolution (tiltStepper w)))
                       (tiltStepper w)\<rparr>,
                 [''OK TILT REV''])"
  using trim_head [OF assms(1)] assms(2,3)
  by (auto simp add: dispatch_def Let_def strchr_def)

lemma e_enables:
  assumes "command_char raw = Some c" and "c \<in> set ''eE''"
  shows "\<exists>io. dispatch L raw w = Some (w\<lparr>gpio := io\<rparr>, [''OK DRIVERS ON''])
            \<and> io (enable_pin (turntableStepper w)) = LOW \<and> io (enable_pin (tiltStepper w)) = LOW"
proof -
  have c: "c = CHR ''e'' \<or> c = CHR ''E''" using assms(2) by auto
  have "dispatch L raw w =
          Some (w\<lparr>gpio := enable (tiltStepper w) (enable (turntableStepper w) (gpio w))\<rparr>,
                [''OK DRIVERS ON''])"
    using trim_head[OF assms(1)] c
    by (elim disjE) (simp_all add: dispatch_def Let_def strchr_def)
  moreover have "enable (tiltStepper w) (enable (turntableStepper w) (gpio w))
                   (enable_pin (turntableStepper w)) = LOW"
    by (simp add: enable_def digitalWrite_def)
  moreover have "enable (tiltStepper w) (enable (turntableStepper w) (gpio w))
                   (enable_pin (tiltStepper w)) = LOW"
    by (simp add: enable_def digitalWrite_def)
  ultimately show ?thesis by blast
qed


lemma M_enables:
  assumes "command_char raw = Some c" and "c \<in> set ''mM''"
    and "dispatch L raw w = Some (w', [''OK M''])"
  shows "gpio w' (enable_pin (turntableStepper w)) = LOW \<and> gpio w' (enable_pin (tiltStepper w)) = LOW"
  using trim_head[OF assms(1)] assms(2,3)
  by (auto simp add: dispatch_def Let_def strchr_def enable_def digitalWrite_def
           split: prod.splits if_splits option.splits)

text \<open>
  C10.  The jog commands \<open>n\<close>, \<open>c\<close> (pan) and \<open>w\<close>, \<open>p\<close> (tilt), in either case of the letter,
  issue their relative move and return with every output line as it was: \<open>n\<close> and \<open>w\<close> move
  by the direction of the axis, \<open>c\<close> and \<open>p\<close> by the direction times the pulses of a
  revolution, when that count is defined.  A command other than \<open>M\<close> and \<open>e\<close> leaves high
  (disabled) an enable line that was high, provided the line is not also wired as a select
  line; \<open>e\<close>, and \<open>M\<close> when it replies \<open>OK M\<close>, drive both enable lines low.
\<close>

theorem jog_leaves_drivers_alone:
  assumes "command_char raw = Some c"
  shows "(c \<in> set ''nNcCwWpP'' \<and> dispatch L raw w = Some (w', out) \<longrightarrow> gpio w' = gpio w)
       \<and> (c \<in> set ''nN'' \<longrightarrow>
            dispatch L raw w =
              Some (w\<lparr>turntableStepper := move L (rot_dir w) (turntableStepper w)\<rparr>,
                    [''OK ROT STEP'']))
       \<and> (c \<in> set ''wW'' \<longrightarrow>
            dispatch L raw w =
              Some (w\<lparr>tiltStepper := move L (til_dir w) (tiltStepper w)\<rparr>, [''OK TILT STEP'']))
       \<and> (c \<in> set ''cC'' \<and> getOutputStepsPerRotation (turntableStepper w) = Some osr \<longrightarrow>
            dispatch L raw w =
              Some (w\<lparr>turntableStepper :=
                        move L (rot_dir w * (osr * getMicrostepResolution (turntableStepper w)))
                          (turntableStepper w)\<rparr>,
                    [''OK ROT REV'']))
       \<and> (c \<in> set ''pP'' \<and> getOutputStepsPerRotation (tiltStepper w) = Some osr \<longrightarrow>
            dispatch L raw w =
              Some (w\<lparr>tiltStepper :=
                        move L (til_dir w * (osr * getMicrostepResolution (tiltStepper w)))
                          (tiltStepper w)\<rparr>,
                    [''OK TILT REV'']))
       \<and> (c \<notin> set ''MmEe'' \<and> dispatch L raw w = Some (w', out)
            \<and> p \<notin> {ms1_pin (turntableStepper w), ms2_pin (turntableStepper w),
                     ms3_pin (turntableStepper w), ms1_pin (tiltStepper w),
                     ms2_pin (tiltStepper w), ms3_pin (tiltStepper w)}
            \<and> gpio w p = HIGH \<longrightarrow> gpio w' p = HIGH)
       \<and> (c \<in> set ''eE'' \<longrightarrow>
            (\<exists>io. dispatch L raw w = Some (w\<lparr>gpio := io\<rparr>, [''OK DRIVERS ON''])
                  \<and> io (enable_pin (turntableStepper w)) = LOW
                  \<and> io (enable_pin (tiltStepper w)) = LOW))
       \<and> (c \<in> set ''mM'' \<and> dispatch L raw w = Some (w', [''OK M'']) \<longrightarrow>
            gpio w' (enable_pin (turntableStepper w)) = LOW
            \<and> gpio w' (enable_pin (tiltStepper w)) = LOW)"
  using jog_keeps_gpio [OF assms, of L w w' out]
    pan_step_result [OF assms, of L w] tilt_step_result [OF assms, of L w]
    pan_rev_result [OF assms, of w osr L] tilt_rev_result [OF assms, of w osr L]
    enable_only_by_M_e [OF _ assms, of L w w' out p] e_enables [OF assms, of L w]
    M_enables [OF assms, of L w w']
  by (intro conjI impI) blast+

theorem jog_leaves_drivers_alone_witness:
  "\<exists>w'. dispatch bench ''c'' bench_world = Some (w', [''OK ROT REV''])
        \<and> gpio w' = gpio bench_world \<and> gpio w' 16 = HIGH
        \<and> targetPos (stepper (turntableStepper w')) = 18144"
proof -
  have c: "command_char ''c'' = Some CHR ''c''"
    by code_simp
  have r: "map_option snd (dispatch bench ''c'' bench_world) = Some [''OK ROT REV'']"
    by code_simp
  then obtain w' where d: "dispatch bench ''c'' bench_world = Some (w', [''OK ROT REV''])"
    by (cases "dispatch bench ''c'' bench_world") auto
  have t: "map_option (\<lambda>r. targetPos (stepper (turntableStepper (fst r))))
             (dispatch bench ''c'' bench_world) = Some 18144"
    by code_simp
  have h: "gpio bench_world 16 = HIGH"
    by code_simp
  have "gpio w' = gpio bench_world"
    using jog_leaves_drivers_alone [OF c, of bench bench_world w' "[''OK ROT REV'']"] d by simp
  then show ?thesis
    using d t h by simp
qed

section \<open>Single-precision arithmetic: rounding\<close>

text \<open>Powers of two, and the exponent of a value.\<close>

lemma two_powi_less: "m < n \<Longrightarrow> (2::rat) powi m < 2 powi n"
  by (rule power_int_strict_increasing) simp_all

lemma two_powi_le: "m \<le> n \<Longrightarrow> (2::rat) powi m \<le> 2 powi n"
  by (rule power_int_increasing) simp_all

lemma two_powi_less_cancel: "(2::rat) powi m < 2 powi n \<Longrightarrow> m < n"
  using two_powi_le [of n m] by (cases "m < n") auto

lemma two_powi_add: "(2::rat) powi (m + n) = 2 powi m * 2 powi n"
  by (simp add: power_int_add)

lemma two_powi_diff: "(2::rat) powi (m - n) = 2 powi m / 2 powi n"
  by (simp add: power_int_diff)

lemma bitlen_powi:
  assumes "0 < p"
  shows "(2::rat) powi (bitlen p - 1) \<le> of_int p \<and> of_int p < (2::rat) powi (bitlen p)"
proof -
  have b: "2 ^ nat (bitlen p - 1) \<le> p \<and> p < 2 ^ nat (bitlen p)"
    using bitlen_bounds [OF assms] .
  have pos: "1 \<le> bitlen p"
    using assms bitlen_eq_zero_iff [of p] bitlen_nonneg [of p] by linarith
  have "(of_int (2 ^ nat (bitlen p - 1)) :: rat) \<le> of_int p"
    using b by (simp only: of_int_le_iff)
  moreover have "(of_int p :: rat) < of_int (2 ^ nat (bitlen p))"
    using b by (simp only: of_int_less_iff)
  ultimately show ?thesis
    using pos by (simp add: power_int_def)
qed

lemma ilog2_bounds:
  assumes "x \<noteq> 0"
  shows "2 powi ilog2 x \<le> \<bar>x\<bar> \<and> \<bar>x\<bar> < 2 powi (ilog2 x + 1)"
proof -
  obtain p q where pq: "quotient_of \<bar>x\<bar> = (p, q)"
    by (cases "quotient_of \<bar>x\<bar>")
  have q: "0 < q"
    using quotient_of_denom_pos [OF pq] .
  have x: "\<bar>x\<bar> = of_int p / of_int q"
    using quotient_of_div [OF pq] .
  have p: "0 < p"
  proof -
    have "0 < (of_int p :: rat) / of_int q" using assms x by simp
    then show ?thesis using q by (simp add: zero_less_divide_iff)
  qed
  define d where "d = bitlen p - bitlen q"
  have bp: "(2::rat) powi (bitlen p - 1) \<le> of_int p" "of_int p < (2::rat) powi (bitlen p)"
    using bitlen_powi [OF p] by simp_all
  have bq: "(2::rat) powi (bitlen q - 1) \<le> of_int q" "of_int q < (2::rat) powi (bitlen q)"
    using bitlen_powi [OF q] by simp_all
  have qpos: "(0::rat) < of_int q" using q by simp
  have up: "\<bar>x\<bar> < 2 powi (d + 1)"
  proof -
    have "of_int p < (2::rat) powi (d + 1) * 2 powi (bitlen q - 1)"
      using bp(2) by (simp add: d_def flip: two_powi_add)
    also have "\<dots> \<le> 2 powi (d + 1) * of_int q"
      using bq(1) by (simp add: mult_left_mono)
    finally show ?thesis
      using qpos by (simp add: x pos_divide_less_eq)
  qed
  have lo: "2 powi (d - 1) < \<bar>x\<bar>"
  proof -
    have "(2::rat) powi (d - 1) * of_int q < 2 powi (d - 1) * 2 powi (bitlen q)"
      using bq(2) by (simp add: mult_strict_left_mono)
    also have "\<dots> = 2 powi (bitlen p - 1)"
      by (simp add: d_def flip: two_powi_add)
    also have "\<dots> \<le> of_int p" using bp(1) .
    finally show ?thesis
      using qpos by (simp add: x pos_less_divide_eq)
  qed
  have i: "ilog2 x = (if 2 powi d \<le> \<bar>x\<bar> then d else d - 1)"
    by (simp add: ilog2_def pq d_def Let_def)
  show ?thesis
    using up lo by (auto simp: i)
qed

lemma ilog2_unique:
  assumes "2 powi e \<le> \<bar>x\<bar>" and "\<bar>x\<bar> < 2 powi (e + 1)"
  shows "ilog2 x = e"
proof -
  have nz: "x \<noteq> 0"
  proof
    assume "x = 0"
    with assms(1) have "(2::rat) powi e \<le> 0" by simp
    moreover have "0 < (2::rat) powi e" by simp
    ultimately show False by linarith
  qed
  from ilog2_bounds [OF nz] assms
  have "(2::rat) powi e < 2 powi (ilog2 x + 1)" "(2::rat) powi ilog2 x < 2 powi (e + 1)"
    by linarith+
  then have "e < ilog2 x + 1" "ilog2 x < e + 1"
    by (auto dest: two_powi_less_cancel)
  then show ?thesis by simp
qed

lemma rne_of_int: "rne (of_int n) = n"
  by (simp add: rne_def)

lemma rne_error: "\<bar>of_int (rne x) - x\<bar> \<le> 1 / 2"
proof -
  have "of_int \<lfloor>x\<rfloor> \<le> x" "x < of_int \<lfloor>x\<rfloor> + 1"
    by linarith+
  then show ?thesis
    unfolding rne_def Let_def by (auto simp: abs_if; linarith)
qed

lemma rne_bound:
  assumes "\<bar>x\<bar> \<le> of_int N"
  shows "\<bar>rne x\<bar> \<le> N"
proof -
  have u: "x \<le> of_int N" and l: "of_int (- N) \<le> x"
    using assms by (simp_all add: abs_le_iff)
  have "x < of_int N + 1"
    using u by linarith
  then have f1: "\<lfloor>x\<rfloor> \<le> N"
    by (simp add: floor_le_iff)
  have f2: "- N \<le> \<lfloor>x\<rfloor>"
    using l by (simp only: le_floor_iff)
  note f = f1 f2
  have "rne x = \<lfloor>x\<rfloor> \<or> (rne x = \<lfloor>x\<rfloor> + 1 \<and> of_int \<lfloor>x\<rfloor> < x)"
    unfolding rne_def Let_def by auto
  moreover have "\<lfloor>x\<rfloor> + 1 \<le> N" if "of_int \<lfloor>x\<rfloor> < x"
  proof -
    have "of_int \<lfloor>x\<rfloor> < (of_int N :: rat)" using that assms by linarith
    then show ?thesis by simp
  qed
  ultimately show ?thesis using f by auto
qed

lemma rne_double: "\<bar>of_int (rne x) :: rat\<bar> \<le> 2 * \<bar>x\<bar>"
proof (cases "\<bar>x\<bar> < 1 / 2")
  case True
  have "rne x = 0"
  proof (cases "0 \<le> x")
    case True
    with \<open>\<bar>x\<bar> < 1 / 2\<close> have f: "\<lfloor>x\<rfloor> = 0"
      by (simp add: floor_eq_iff)
    show ?thesis
      using \<open>\<bar>x\<bar> < 1 / 2\<close> True by (simp add: rne_def Let_def f)
  next
    case False
    with \<open>\<bar>x\<bar> < 1 / 2\<close> have f: "\<lfloor>x\<rfloor> = - 1"
      by (simp add: floor_eq_iff)
    show ?thesis
      using \<open>\<bar>x\<bar> < 1 / 2\<close> False by (simp add: rne_def Let_def f)
  qed
  then show ?thesis by simp
next
  case False
  then show ?thesis using rne_error [of x] by linarith
qed

text \<open>
  What \<open>fround\<close> leaves alone, what it returns, and how it commutes with a power of two.
\<close>

lemma fround_scaled_strict:
  assumes m: "m \<noteq> 0" "\<bar>m\<bar> < 2 ^ 24" and e: "- 149 \<le> e"
  shows "fround (of_int m * 2 powi e) = of_int m * 2 powi e"
proof -
  define x :: rat where "x = of_int m * 2 powi e"
  have nz: "x \<noteq> 0"
    using m(1) by (simp add: x_def)
  have ax: "\<bar>x\<bar> = of_int \<bar>m\<bar> * 2 powi e"
    by (simp add: x_def abs_mult)
  have "(of_int \<bar>m\<bar> :: rat) < of_int (2 ^ 24)"
    using m(2) by (simp only: of_int_less_iff)
  then have "\<bar>x\<bar> < 2 ^ 24 * 2 powi e"
    unfolding ax by (simp add: mult_strict_right_mono)
  also have "\<dots> = 2 powi (24 + e)"
    by (simp add: two_powi_add)
  finally have "2 powi ilog2 x < (2::rat) powi (24 + e)"
    using ilog2_bounds [OF nz] by linarith
  then have "ilog2 x < 24 + e"
    by (rule two_powi_less_cancel)
  define E where "E = max (ilog2 x - 23) (- 149)"
  have E: "E \<le> e"
    using \<open>ilog2 x < 24 + e\<close> e by (simp add: E_def)
  have q: "x / 2 powi E = of_int (m * 2 ^ nat (e - E))"
  proof -
    have "x / 2 powi E = of_int m * 2 powi (e - E)"
      by (simp add: x_def two_powi_diff)
    also have "(2::rat) powi (e - E) = 2 ^ nat (e - E)"
      using E by (simp add: power_int_def)
    finally show ?thesis by simp
  qed
  have "fround x = of_int (rne (x / 2 powi E)) * 2 powi E"
    using nz by (simp add: fround_def E_def Let_def)
  also have "\<dots> = (x / 2 powi E) * 2 powi E"
    unfolding q rne_of_int ..
  also have "\<dots> = x"
    by simp
  finally show ?thesis
    by (simp add: x_def)
qed

lemma fround_scaled:
  assumes m: "\<bar>m\<bar> \<le> 2 ^ 24" and e: "- 149 \<le> e"
  shows "fround (of_int m * 2 powi e) = of_int m * 2 powi e"
proof -
  consider "m = 0" | "m \<noteq> 0" "\<bar>m\<bar> < 2 ^ 24" | "m = 2 ^ 24" | "m = - (2 ^ 24)"
    using m by (cases "m = 0"; cases "0 \<le> m"; cases "\<bar>m\<bar> < 2 ^ 24"; simp; linarith)
  then show ?thesis
  proof cases
    case 1
    then show ?thesis by (simp add: fround_def)
  next
    case 2
    then show ?thesis using e by (rule fround_scaled_strict)
  next
    case 3
    have "fround (of_int 1 * 2 powi (24 + e)) = of_int 1 * 2 powi (24 + e)"
      using e by (intro fround_scaled_strict) simp_all
    then show ?thesis
      by (simp add: 3 two_powi_add)
  next
    case 4
    have "fround (of_int (- 1) * 2 powi (24 + e)) = of_int (- 1) * 2 powi (24 + e)"
      using e by (intro fround_scaled_strict) simp_all
    then show ?thesis
      by (simp add: 4 two_powi_add)
  qed
qed

lemma fround_shape:
  assumes "x \<noteq> 0"
  shows "\<exists>m. fround x = of_int m * 2 powi (max (ilog2 x - 23) (- 149)) \<and> \<bar>m\<bar> \<le> 2 ^ 24"
proof -
  define E where "E = max (ilog2 x - 23) (- 149)"
  define m where "m = rne (x / 2 powi E)"
  have f: "fround x = of_int m * 2 powi E"
    using assms by (simp add: fround_def E_def m_def Let_def)
  have "\<bar>x\<bar> < 2 powi (ilog2 x + 1)"
    using ilog2_bounds [OF assms] by simp
  also have "\<dots> \<le> 2 powi (E + 24)"
    by (rule two_powi_le) (simp add: E_def)
  also have "\<dots> = 2 powi E * 2 ^ 24"
    by (simp add: two_powi_add)
  finally have "\<bar>x\<bar> / 2 powi E < 2 ^ 24"
    by (simp add: pos_divide_less_eq mult.commute)
  then have "\<bar>x / 2 powi E\<bar> \<le> of_int (2 ^ 24)"
    by (simp add: abs_divide)
  then have "\<bar>m\<bar> \<le> 2 ^ 24"
    unfolding m_def by (rule rne_bound)
  then show ?thesis
    using f unfolding E_def by blast
qed

lemma fround_idem: "fround (fround x) = fround x"
proof (cases "x = 0")
  case True
  then show ?thesis by (simp add: fround_def)
next
  case False
  from fround_shape [OF False] obtain m where
    "fround x = of_int m * 2 powi (max (ilog2 x - 23) (- 149))" "\<bar>m\<bar> \<le> 2 ^ 24"
    by blast
  then show ?thesis
    using fround_scaled [of m "max (ilog2 x - 23) (- 149)"] by simp
qed

lemma fround_of_int:
  assumes "\<bar>m\<bar> \<le> 2 ^ 24"
  shows "fround (of_int (m * 2 ^ j)) = of_int (m * 2 ^ j)"
  using fround_scaled [OF assms, of "int j"] by simp

lemma fround_double: "\<bar>fround x\<bar> \<le> 2 * \<bar>x\<bar>"
proof (cases "x = 0")
  case True
  then show ?thesis by (simp add: fround_def)
next
  case False
  define E where "E = max (ilog2 x - 23) (- 149)"
  have "\<bar>fround x\<bar> = \<bar>of_int (rne (x / 2 powi E))\<bar> * 2 powi E"
    using False by (simp add: fround_def Let_def E_def abs_mult)
  also have "\<dots> \<le> (2 * \<bar>x / 2 powi E\<bar>) * 2 powi E"
    by (intro mult_right_mono rne_double) simp
  also have "\<dots> = 2 * \<bar>x\<bar>"
    by (simp add: abs_divide)
  finally show ?thesis .
qed

lemma round_away_of_int: "round_away (of_int n) = n"
proof -
  have "\<lfloor>(of_int k :: rat) + 1 / 2\<rfloor> = k" for k
    by (simp add: floor_eq_iff)
  from this [of n] this [of "- n"] show ?thesis
    by (simp add: round_away_def)
qed

lemma round_away_small:
  assumes "\<bar>x\<bar> < 1 / 2"
  shows "round_away x = 0"
proof (cases "0 \<le> x")
  case True
  then have "\<lfloor>x + 1 / 2\<rfloor> = 0"
    using assms by (simp add: floor_eq_iff)
  then show ?thesis using True by (simp add: round_away_def)
next
  case False
  then have "\<lfloor>- x + 1 / 2\<rfloor> = 0"
    using assms by (simp add: floor_eq_iff)
  then show ?thesis using False by (simp add: round_away_def)
qed

lemma round_away_bound:
  assumes "\<bar>x\<bar> \<le> of_int N"
  shows "\<bar>round_away x\<bar> \<le> N"
proof -
  have a: "\<lfloor>\<bar>x\<bar> + 1 / 2\<rfloor> \<le> N"
    using assms by (simp add: floor_le_iff)
  have b: "0 \<le> \<lfloor>\<bar>x\<bar> + 1 / 2\<rfloor>"
    by (simp add: le_floor_iff)
  have "\<bar>round_away x\<bar> = \<lfloor>\<bar>x\<bar> + 1 / 2\<rfloor>"
  proof (cases "0 \<le> x")
    case True
    then show ?thesis using b by (simp add: round_away_def)
  next
    case False
    then have "\<bar>x\<bar> = - x" by simp
    then show ?thesis using b False by (simp add: round_away_def)
  qed
  then show ?thesis using a by simp
qed

text \<open>Integers that a \<^verbatim>\<open>float\<close> holds exactly, also after a 32-bit product has wrapped.\<close>

lemma round_away_fround_shape:
  "\<exists>m j. round_away (fround z) = m * 2 ^ j \<and> \<bar>m\<bar> \<le> 2 ^ 24"
proof (cases "z = 0")
  case True
  have "round_away (fround z) = 0 * 2 ^ 0"
    using True round_away_of_int [of 0] by (simp add: fround_def)
  then show ?thesis
    by (intro exI [of _ 0] exI [of _ "0::nat"]) simp
next
  case False
  define E where "E = max (ilog2 z - 23) (- 149)"
  from fround_shape [OF False] obtain m where
    f: "fround z = of_int m * 2 powi E" and m: "\<bar>m\<bar> \<le> 2 ^ 24"
    unfolding E_def by blast
  show ?thesis
  proof (cases "0 \<le> E")
    case True
    then have "fround z = of_int (m * 2 ^ nat E)"
      by (simp add: f power_int_def)
    then have "round_away (fround z) = m * 2 ^ nat E"
      by (simp only: round_away_of_int)
    then show ?thesis using m by blast
  next
    case False
    then have "(2::rat) powi E \<le> 2 powi 0"
      by (intro two_powi_le) simp
    then have "(2::rat) powi E \<le> 1" by simp
    have "\<bar>fround z\<bar> = of_int \<bar>m\<bar> * 2 powi E"
      by (simp add: f abs_mult)
    also have "\<dots> \<le> of_int \<bar>m\<bar> * 1"
      using \<open>(2::rat) powi E \<le> 1\<close> by (intro mult_left_mono) simp_all
    also have "\<dots> \<le> of_int (2 ^ 24)"
      using m by (simp only: mult_1_right of_int_le_iff)
    finally have "\<bar>round_away (fround z)\<bar> \<le> 2 ^ 24"
      by (rule round_away_bound)
    then show ?thesis
      by (intro exI [of _ "round_away (fround z)"] exI [of _ "0::nat"]) simp
  qed
qed

lemma fmul_finite:
  assumes "fmul X Y = F32 r"
  shows "\<exists>z. r = fround z"
  using assms
  by (cases X; cases Y) (auto simp: to_f32_def Let_def split: if_splits)

lemma lroundf_SomeD:
  assumes "lroundf F = Some n"
  shows "\<exists>x. F = F32 x \<and> sint n = round_away x"
proof (cases F)
  case (F32 x)
  have r: "- (2 ^ 31) \<le> round_away x \<and> round_away x < 2 ^ 31" and n: "n = word_of_int (round_away x)"
    using assms unfolding F32 by (auto simp: Let_def split: if_splits)
  have "sint n = round_away x"
    unfolding n using r by (simp add: signed_of_int signed_take_bit_int_eq_self)
  then show ?thesis using F32 by simp
qed (use assms in simp_all)

lemma wrap_shape:
  fixes m :: int
  assumes m: "\<bar>m\<bar> \<le> 2 ^ 24"
  shows "\<exists>m' j'. signed_take_bit 31 (m * 2 ^ J) = m' * 2 ^ j' \<and> \<bar>m'\<bar> \<le> 2 ^ 24"
proof (cases "J \<le> 6")
  case True
  have "(2::int) ^ J \<le> 2 ^ 6"
    using True by (intro power_increasing) simp_all
  then have "\<bar>m * 2 ^ J\<bar> \<le> 2 ^ 24 * 2 ^ 6"
    unfolding abs_mult using m by (intro mult_mono) simp_all
  then have "- (2 ^ 31) \<le> m * 2 ^ J" "m * 2 ^ J < 2 ^ 31"
    by (simp_all add: abs_le_iff)
  then have "signed_take_bit 31 (m * 2 ^ J) = m * 2 ^ J"
    by (simp add: signed_take_bit_int_eq_self)
  then show ?thesis using m by blast
next
  case False
  define v where "v = m * 2 ^ J"
  define b where "b = signed_take_bit (31::nat) v"
  define K where "K = min J 32"
  have K: "7 \<le> K" "K \<le> 32" "K \<le> J"
    using False by (simp_all add: K_def)
  have range: "- (2 ^ 31) \<le> b" "b < 2 ^ 31"
    unfolding b_def
    using signed_take_bit_int_greater_eq_minus_exp [of 31 v] signed_take_bit_int_less_exp [of 31 v]
    by simp_all
  have "take_bit 32 b = take_bit 32 v"
    unfolding b_def by (simp add: take_bit_signed_take_bit)
  then have "b mod 2 ^ 32 = v mod 2 ^ 32"
    by (simp add: take_bit_eq_mod)
  then have d32: "(2::int) ^ 32 dvd b - v"
    by (simp add: mod_eq_dvd_iff)
  have "(2::int) ^ K dvd 2 ^ 32"
    using K(2) by (rule le_imp_power_dvd)
  then have "(2::int) ^ K dvd b - v"
    using d32 by (rule dvd_trans)
  moreover have "(2::int) ^ K dvd v"
  proof -
    have "(2::int) ^ K dvd 2 ^ J"
      using K(3) by (rule le_imp_power_dvd)
    then show ?thesis unfolding v_def by simp
  qed
  ultimately have "(2::int) ^ K dvd b"
    using dvd_add [of "2 ^ K" "b - v" v] by simp
  then obtain m' where b: "b = m' * 2 ^ K"
    by (auto simp: dvd_def mult.commute)
  have "(2::int) ^ 7 \<le> 2 ^ K"
    using K(1) by (intro power_increasing) simp_all
  then have "\<bar>m'\<bar> * 2 ^ 7 \<le> \<bar>m'\<bar> * 2 ^ K"
    by (intro mult_left_mono) simp_all
  also have "\<dots> = \<bar>b\<bar>"
    by (simp add: b abs_mult)
  also have "\<dots> \<le> 2 ^ 31"
    using range by (simp add: abs_le_iff)
  finally have "\<bar>m'\<bar> \<le> 2 ^ 24"
    by simp
  then show ?thesis
    using b unfolding b_def v_def by blast
qed

lemma to_f32_exact_int:
  fixes m :: int
  assumes "n = m * 2 ^ j" and "\<bar>m\<bar> \<le> 2 ^ 24" and "\<bar>n\<bar> \<le> 2 ^ 31"
  shows "to_f32 (of_int n) = F32 (of_int n)"
proof -
  have f: "fround (of_int n) = of_int n"
    unfolding assms(1) using assms(2) by (rule fround_of_int)
  have "(of_int \<bar>n\<bar> :: rat) \<le> of_int (2 ^ 31)"
    using assms(3) by (simp only: of_int_le_iff)
  then have "\<bar>of_int n :: rat\<bar> < 2 ^ 128"
    by simp
  then show ?thesis
    by (simp add: to_f32_def f)
qed

lemma sint_bounds32: "\<bar>sint (w :: 32 word)\<bar> \<le> 2 ^ 31"
  using sint_ge [of w] sint_lt [of w] by (simp add: abs_le_iff)

lemma lroundf_of_sint: "lroundf (F32 (of_int (sint (w :: 32 word)))) = Some w"
  unfolding lroundf.simps Let_def round_away_of_int
  using sint_ge [of w] sint_lt [of w] by simp

lemma sint_times_pow2:
  "sint ((w :: 32 word) * 2 ^ k) = signed_take_bit 31 (sint w * 2 ^ k)"
proof -
  have "w * 2 ^ k = word_of_int (sint w * 2 ^ k)"
    by simp
  then show ?thesis
    by (simp only: signed_of_int) simp
qed

lemma valid_resolution_pow2:
  assumes "(r :: 32 word) \<in> {1, 2, 4, 8, 16}"
  shows "\<exists>k \<le> 4. r = 2 ^ k"
proof -
  have "r = 2 ^ 0 \<or> r = 2 ^ 1 \<or> r = 2 ^ 2 \<or> r = 2 ^ 3 \<or> r = 2 ^ 4"
    using assms by auto
  then show ?thesis
  proof (elim disjE)
    assume "r = 2 ^ 0" then show ?thesis by (intro exI [of _ 0]) simp
  next
    assume "r = 2 ^ 1" then show ?thesis by (intro exI [of _ 1]) simp
  next
    assume "r = 2 ^ 2" then show ?thesis by (intro exI [of _ 2]) simp
  next
    assume "r = 2 ^ 3" then show ?thesis by (intro exI [of _ 3]) simp
  next
    assume "r = 2 ^ 4" then show ?thesis by (intro exI [of _ 4]) simp
  qed
qed

lemma osr_shape:
  assumes "getOutputStepsPerRotation g = Some osr"
  shows "\<exists>m j. sint osr = m * 2 ^ j \<and> \<bar>m\<bar> \<le> 2 ^ 24"
proof -
  from lroundf_SomeD [OF assms [unfolded getOutputStepsPerRotation_def]]
  obtain x where x: "fmul (long_to_float (base_steps_per_rot g)) (gear_ratio g) = F32 x"
    and s: "sint osr = round_away x"
    by blast
  from fmul_finite [OF x] obtain z where "x = fround z" ..
  then show ?thesis
    using round_away_fround_shape [of z] s by simp
qed

lemma long_to_float_exact:
  fixes m :: int
  assumes "sint w = m * 2 ^ j" and "\<bar>m\<bar> \<le> 2 ^ 24"
  shows "long_to_float w = F32 (of_int (sint w))"
  unfolding long_to_float_def
  using assms sint_bounds32 [of w] by (rule to_f32_exact_int)

lemma to_f32_one: "to_f32 1 = F32 1"
  using to_f32_exact_int [of 1 1 0] by simp

lemma round_away_near: "\<bar>of_int (round_away x) - x\<bar> \<le> 1 / 2"
  unfolding round_away_def by (auto simp: abs_if) linarith+

lemma fround_error: "\<bar>fround x - x\<bar> \<le> \<bar>x\<bar> / 2 ^ 24 + 1 / 2 ^ 150"
proof (cases "x = 0")
  case True
  then show ?thesis by (simp add: fround_def)
next
  case False
  define E where "E = max (ilog2 x - 23) (- 149)"
  define q where "q = x / 2 powi E"
  have x: "x = q * 2 powi E"
    by (simp add: q_def)
  have f: "fround x = of_int (rne q) * 2 powi E"
    using False by (simp add: fround_def E_def q_def Let_def)
  have "(of_int (rne q) - q) * 2 powi E = of_int (rne q) * 2 powi E - q * 2 powi E"
    by (rule left_diff_distrib)
  also have "q * 2 powi E = x"
    by (simp add: q_def)
  finally have "fround x - x = (of_int (rne q) - q) * 2 powi E"
    by (simp add: f)
  then have "\<bar>fround x - x\<bar> = \<bar>of_int (rne q) - q\<bar> * 2 powi E"
    by (simp add: abs_mult)
  also have "\<dots> \<le> (1 / 2) * 2 powi E"
    by (intro mult_right_mono rne_error) simp
  finally have h: "\<bar>fround x - x\<bar> \<le> 2 powi E / 2"
    by simp
  show ?thesis
  proof (cases "- 149 \<le> ilog2 x - 23")
    case True
    then have "E = ilog2 x - 23"
      by (simp add: E_def)
    then have "(2::rat) powi E = 2 powi ilog2 x / 2 ^ 23"
      by (simp add: two_powi_diff)
    also have "\<dots> \<le> \<bar>x\<bar> / 2 ^ 23"
      using ilog2_bounds [OF False] by (simp add: divide_right_mono)
    finally have "2 powi E / 2 \<le> \<bar>x\<bar> / 2 ^ 24"
      by simp
    moreover have "(0::rat) \<le> 1 / 2 ^ 150"
      by simp
    ultimately show ?thesis
      using h by linarith
  next
    case False
    then have "E = - 149"
      by (simp add: E_def)
    then have "(2::rat) powi E / 2 = 1 / 2 ^ 150"
      by (simp add: power_int_minus_divide)
    then have "\<bar>fround x - x\<bar> \<le> 1 / 2 ^ 150"
      using h by (simp only:)
    moreover have "0 \<le> \<bar>x\<bar> / 2 ^ 24"
      by simp
    ultimately show ?thesis
      by linarith
  qed
qed

lemma two_step_sum:
  fixes A B D1 D2 :: rat
  assumes "0 \<le> B" and "D1 \<le> A / 2 ^ 24 + B / 2 ^ 150"
    and "D2 \<le> (A + A / 2 ^ 24 + B / 2 ^ 150) / 2 ^ 24 + 1 / 2 ^ 150"
  shows "D1 + D2 \<le> A / 2 ^ 23 + A / 2 ^ 48 + B / 2 ^ 149 + 1 / 2 ^ 150"
proof -
  have b: "B / 2 ^ 174 \<le> B / 2 ^ 150"
    using assms(1) by (intro divide_left_mono) simp_all
  have e: "(A + A / 2 ^ 24 + B / 2 ^ 150) / 2 ^ 24 = A / 2 ^ 24 + A / 2 ^ 48 + B / 2 ^ 174"
    by (simp add: add_divide_distrib)
  have a2: "A / 2 ^ 23 = A / 2 ^ 24 + A / 2 ^ 24"
    by (simp add: field_simps)
  have b2: "B / 2 ^ 149 = B / 2 ^ 150 + B / 2 ^ 150"
    by (simp add: field_simps)
  show ?thesis
    using assms(2,3) b unfolding e a2 b2 by linarith
qed

lemma two_step_error:
  "\<bar>fround (fround a * b) - a * b\<bar>
     \<le> \<bar>a * b\<bar> / 2 ^ 23 + \<bar>a * b\<bar> / 2 ^ 48 + \<bar>b\<bar> / 2 ^ 149 + 1 / 2 ^ 150"
proof -
  define t where "t = fround a"
  have e1: "\<bar>t - a\<bar> \<le> \<bar>a\<bar> / 2 ^ 24 + 1 / 2 ^ 150"
    unfolding t_def by (rule fround_error)
  have "\<bar>t * b - a * b\<bar> = \<bar>t - a\<bar> * \<bar>b\<bar>"
    by (simp add: abs_mult flip: left_diff_distrib)
  also have "\<dots> \<le> (\<bar>a\<bar> / 2 ^ 24 + 1 / 2 ^ 150) * \<bar>b\<bar>"
    using e1 by (intro mult_right_mono) simp_all
  also have "\<dots> = \<bar>a * b\<bar> / 2 ^ 24 + \<bar>b\<bar> / 2 ^ 150"
    by (simp add: abs_mult algebra_simps)
  finally have d: "\<bar>t * b - a * b\<bar> \<le> \<bar>a * b\<bar> / 2 ^ 24 + \<bar>b\<bar> / 2 ^ 150" .
  have tb: "\<bar>t * b\<bar> \<le> \<bar>a * b\<bar> + \<bar>a * b\<bar> / 2 ^ 24 + \<bar>b\<bar> / 2 ^ 150"
    using d by linarith
  have "\<bar>fround (t * b) - t * b\<bar> \<le> \<bar>t * b\<bar> / 2 ^ 24 + 1 / 2 ^ 150"
    by (rule fround_error)
  also have "\<dots> \<le> (\<bar>a * b\<bar> + \<bar>a * b\<bar> / 2 ^ 24 + \<bar>b\<bar> / 2 ^ 150) / 2 ^ 24 + 1 / 2 ^ 150"
    using tb by (simp add: divide_right_mono)
  finally have e2: "\<bar>fround (t * b) - t * b\<bar>
      \<le> (\<bar>a * b\<bar> + \<bar>a * b\<bar> / 2 ^ 24 + \<bar>b\<bar> / 2 ^ 150) / 2 ^ 24 + 1 / 2 ^ 150" .
  have "\<bar>fround (t * b) - a * b\<bar> \<le> \<bar>t * b - a * b\<bar> + \<bar>fround (t * b) - t * b\<bar>"
    by linarith
  also have "\<dots> \<le> \<bar>a * b\<bar> / 2 ^ 23 + \<bar>a * b\<bar> / 2 ^ 48 + \<bar>b\<bar> / 2 ^ 149 + 1 / 2 ^ 150"
    using _ d e2 by (rule two_step_sum) simp
  finally show ?thesis
    by (simp add: t_def)
qed

lemma two_step_bound:
  assumes "\<bar>b\<bar> \<le> 2 ^ 31 \<or> \<bar>b\<bar> \<le> \<bar>a * b\<bar>"
  shows "\<bar>fround (fround a * b) - a * b\<bar> \<le> (\<bar>a * b\<bar> + 1) / 2 ^ 22"
proof -
  have "0 \<le> \<bar>a * b\<bar>"
    by simp
  then show ?thesis
    using two_step_error [of a b] assms by (auto simp add: field_simps) 
qed

lemma within_one:
  fixes n :: int
  assumes "\<bar>of_int n - x\<bar> \<le> 1 / 2 + (\<bar>x\<bar> + 1) / 2 ^ 22" and "\<bar>x\<bar> \<le> 2 ^ 20"
  shows "\<bar>n - round_away x\<bar> \<le> 1"
proof -
  have "\<bar>of_int n - x\<bar> < 1"
    using assms by (simp add: field_simps)
  then have "\<bar>(of_int n :: rat) - of_int (round_away x)\<bar> < 2"
    using round_away_near [of x] by linarith
  then have "\<bar>(of_int (n - round_away x) :: rat)\<bar> < of_int 2"
    by simp
  then have "\<bar>n - round_away x\<bar> < 2"
    by (simp only: of_int_abs [symmetric] of_int_less_iff)
  then show ?thesis
    by simp
qed

lemma two_step_near:
  assumes "\<bar>b\<bar> \<le> 2 ^ 31 \<or> a = 0 \<or> 1 \<le> \<bar>a\<bar>"
  shows "\<bar>fround (fround a * b) - a * b\<bar> \<le> (\<bar>a * b\<bar> + 1) / 2 ^ 22"
proof (cases "a = 0")
  case True
  then show ?thesis
    by (simp add: fround_def)
next
  case False
  have "\<bar>b\<bar> \<le> 2 ^ 31 \<or> \<bar>b\<bar> \<le> \<bar>a * b\<bar>"
  proof (cases "\<bar>b\<bar> \<le> 2 ^ 31")
    case True
    then show ?thesis ..
  next
    case b: False
    then have "1 \<le> \<bar>a\<bar>"
      using assms False by blast
    then have "1 * \<bar>b\<bar> \<le> \<bar>a\<bar> * \<bar>b\<bar>"
      by (intro mult_right_mono) simp_all
    then show ?thesis
      by (simp add: abs_mult)
  qed
  then show ?thesis
    by (rule two_step_bound)
qed

lemma to_f32_F32D: "to_f32 y = F32 x \<Longrightarrow> x = fround y"
  by (simp add: to_f32_def Let_def split: if_splits)

lemma to_f32_finite: "\<bar>y\<bar> < 2 ^ 127 \<Longrightarrow> to_f32 y = F32 (fround y)"
proof -
  assume "\<bar>y\<bar> < 2 ^ 127"
  then have "\<bar>fround y\<bar> < 2 ^ 128"
    using fround_double [of y] by simp
  then show ?thesis
    by (simp add: to_f32_def)
qed

lemma lroundf_in_range:
  assumes "\<bar>x\<bar> \<le> 2 ^ 31 - 1"
  shows "\<exists>n. lroundf (F32 x) = Some n \<and> sint n = round_away x"
proof -
  have "\<bar>x\<bar> \<le> of_int (2 ^ 31 - 1)"
    using assms by simp
  then have "\<bar>round_away x\<bar> \<le> 2 ^ 31 - 1"
    by (rule round_away_bound)
  then have r: "- (2 ^ 31) \<le> round_away x" "round_away x < 2 ^ 31"
    by (simp_all add: abs_le_iff)
  then have "lroundf (F32 x) = Some (word_of_int (round_away x))"
    by (simp add: Let_def)
  moreover have "sint (word_of_int (round_away x) :: 32 word) = round_away x"
    using r by (simp add: signed_of_int signed_take_bit_int_eq_self)
  ultimately show ?thesis
    by blast
qed

text \<open>The two roundings of a product, then \<^verbatim>\<open>lroundf\<close>.\<close>

lemma two_step_lroundf_near:
  assumes c: "\<bar>b\<bar> \<le> 2 ^ 31 \<or> a = 0 \<or> 1 \<le> \<bar>a\<bar>"
    and r: "lroundf (fmul (to_f32 a) (F32 b)) = Some n"
  shows "\<bar>of_int (sint n) - a * b\<bar> \<le> 1 / 2 + (\<bar>a * b\<bar> + 1) / 2 ^ 22"
proof -
  from lroundf_SomeD [OF r] obtain x where
    x: "fmul (to_f32 a) (F32 b) = F32 x" and n: "sint n = round_away x"
    by blast
  have "to_f32 a = F32 (fround a)"
  proof (cases "to_f32 a")
    case (F32 t)
    then show ?thesis
      using to_f32_F32D [OF F32] by simp
  next
    case F32_Inf
    then show ?thesis
      using x by (simp split: if_splits)
  next
    case F32_NaN
    then show ?thesis
      by (simp add: to_f32_def Let_def split: if_splits)
  qed
  then have "to_f32 (fround a * b) = F32 x"
    using x by simp
  then have "x = fround (fround a * b)"
    by (rule to_f32_F32D)
  then have "\<bar>x - a * b\<bar> \<le> (\<bar>a * b\<bar> + 1) / 2 ^ 22"
    using two_step_near [OF c] by simp
  moreover have "\<bar>of_int (round_away x) - x\<bar> \<le> 1 / 2"
    by (rule round_away_near)
  ultimately show ?thesis
    unfolding n by linarith
qed

lemma two_step_lroundf_returns:
  assumes c: "\<bar>b\<bar> \<le> 2 ^ 31 \<or> a = 0 \<or> 1 \<le> \<bar>a\<bar>"
    and a: "\<bar>a\<bar> < 2 ^ 127" and p: "\<bar>a * b\<bar> \<le> 2 ^ 30"
  shows "\<exists>n. lroundf (fmul (to_f32 a) (F32 b)) = Some n"
proof -
  define x where "x = fround (fround a * b)"
  have "\<bar>x - a * b\<bar> \<le> (\<bar>a * b\<bar> + 1) / 2 ^ 22"
    unfolding x_def by (rule two_step_near [OF c])
  also have "\<dots> \<le> (2 ^ 30 + 1) / 2 ^ 22"
    using p by (simp add: divide_right_mono)
  also have "\<dots> \<le> 2 ^ 30 - 1"
    by simp
  finally have "\<bar>x - a * b\<bar> \<le> 2 ^ 30 - 1" .
  then have small: "\<bar>x\<bar> \<le> 2 ^ 31 - 1"
    using p by simp
  then have "\<bar>x\<bar> < 2 ^ 128"
    by simp
  then have "to_f32 (fround a * b) = F32 x"
    by (simp add: to_f32_def x_def)
  then have "fmul (to_f32 a) (F32 b) = F32 x"
    using to_f32_finite [OF a] by simp
  then show ?thesis
    using lroundf_in_range [OF small] by auto
qed

lemma of_int_abs_ge_1: "k \<noteq> 0 \<Longrightarrow> 1 \<le> \<bar>of_int k :: rat\<bar>"
proof -
  assume "k \<noteq> 0"
  then have "1 \<le> \<bar>k\<bar>"
    by simp
  then have "(of_int 1 :: rat) \<le> of_int \<bar>k\<bar>"
    by (simp only: of_int_le_iff)
  then show ?thesis
    by simp
qed

lemma of_int_zero_or_ge_1: "(of_int k :: rat) = 0 \<or> 1 \<le> \<bar>of_int k :: rat\<bar>"
  using of_int_abs_ge_1 [of k] by (cases "k = 0") simp_all

lemma of_int_sint_bound: "\<bar>of_int (sint (w :: 32 word)) :: rat\<bar> \<le> 2 ^ 31"
proof -
  have "(of_int \<bar>sint w\<bar> :: rat) \<le> of_int (2 ^ 31)"
    using sint_bounds32 [of w] by (simp only: of_int_le_iff)
  then show ?thesis
    by simp
qed

lemma osr_code_form:
  assumes "gear_ratio g = F32 r"
  shows "getOutputStepsPerRotation g
           = lroundf (fmul (to_f32 (of_int (sint (base_steps_per_rot g)))) (F32 r))"
  by (simp only: getOutputStepsPerRotation_def long_to_float_def assms)

lemma osr_near:
  assumes "getOutputStepsPerRotation g = Some osr" and "gear_ratio g = F32 r"
  shows "\<bar>of_int (sint osr) - of_int (sint (base_steps_per_rot g)) * r\<bar>
           \<le> 1 / 2 + (\<bar>of_int (sint (base_steps_per_rot g)) * r\<bar> + 1) / 2 ^ 22"
proof (rule two_step_lroundf_near)
  show "\<bar>r\<bar> \<le> 2 ^ 31 \<or> (of_int (sint (base_steps_per_rot g)) :: rat) = 0
          \<or> 1 \<le> \<bar>of_int (sint (base_steps_per_rot g)) :: rat\<bar>"
    using of_int_zero_or_ge_1 [of "sint (base_steps_per_rot g)"] by blast
  show "lroundf (fmul (to_f32 (of_int (sint (base_steps_per_rot g)))) (F32 r)) = Some osr"
    using assms(1) by (simp only: osr_code_form [OF assms(2)])
qed

lemma osr_returns:
  assumes "gear_ratio g = F32 r"
    and "\<bar>of_int (sint (base_steps_per_rot g)) * r\<bar> \<le> 2 ^ 30"
  shows "\<exists>osr. getOutputStepsPerRotation g = Some osr"
proof -
  have "\<exists>n. lroundf (fmul (to_f32 (of_int (sint (base_steps_per_rot g)))) (F32 r)) = Some n"
  proof (rule two_step_lroundf_returns [OF _ _ assms(2)])
    show "\<bar>r\<bar> \<le> 2 ^ 31 \<or> (of_int (sint (base_steps_per_rot g)) :: rat) = 0
            \<or> 1 \<le> \<bar>of_int (sint (base_steps_per_rot g)) :: rat\<bar>"
      using of_int_zero_or_ge_1 [of "sint (base_steps_per_rot g)"] by blast
    have "\<bar>of_int (sint (base_steps_per_rot g)) :: rat\<bar> \<le> 2 ^ 31"
      by (rule of_int_sint_bound)
    also have "\<dots> < 2 ^ 127"
      by simp
    finally show "\<bar>of_int (sint (base_steps_per_rot g)) :: rat\<bar> < 2 ^ 127" .
  qed
  then show ?thesis
    by (simp only: osr_code_form [OF assms(1)])
qed

lemma deg_code_form:
  assumes v: "getMicrostepResolution g \<in> {1, 2, 4, 8, 16}"
    and o: "getOutputStepsPerRotation g = Some osr"
  shows "degToMicrosteps g (F32 d)
           = lroundf (fmul (to_f32 (d / 360))
                           (F32 (of_int (sint (osr * getMicrostepResolution g)))))"
proof -
  from valid_resolution_pow2 [OF v] obtain k where k: "getMicrostepResolution g = 2 ^ k"
    by blast
  define mu where "mu = osr * getMicrostepResolution g"
  from osr_shape [OF o] obtain m j where mj: "sint osr = m * 2 ^ j" "\<bar>m\<bar> \<le> 2 ^ 24"
    by blast
  have "sint mu = signed_take_bit 31 (m * 2 ^ (j + k))"
    unfolding mu_def k sint_times_pow2 mj(1) by (simp add: power_add mult.assoc)
  with wrap_shape [OF mj(2), of "j + k"] obtain m' j' where
    "sint mu = m' * 2 ^ j'" "\<bar>m'\<bar> \<le> 2 ^ 24"
    by auto
  then have f: "long_to_float mu = F32 (of_int (sint mu))"
    by (rule long_to_float_exact)
  have "degToMicrosteps g (F32 d) = lroundf (fmul (fdiv (F32 d) (F32 360)) (long_to_float mu))"
    by (simp add: degToMicrosteps_def o mu_def)
  also have "fdiv (F32 d) (F32 360) = to_f32 (d / 360)"
    by simp
  finally show ?thesis
    using f by (simp only: mu_def)
qed

lemma deg_near:
  assumes v: "getMicrostepResolution g \<in> {1, 2, 4, 8, 16}"
    and o: "getOutputStepsPerRotation g = Some osr"
    and n: "degToMicrosteps g (F32 d) = Some n"
  shows "\<bar>of_int (sint n) - d / 360 * of_int (sint (osr * getMicrostepResolution g))\<bar>
           \<le> 1 / 2 + (\<bar>d / 360 * of_int (sint (osr * getMicrostepResolution g))\<bar> + 1) / 2 ^ 22"
proof (rule two_step_lroundf_near)
  show "\<bar>of_int (sint (osr * getMicrostepResolution g)) :: rat\<bar> \<le> 2 ^ 31
          \<or> d / 360 = 0 \<or> 1 \<le> \<bar>d / 360\<bar>"
    using of_int_sint_bound [of "osr * getMicrostepResolution g"] by blast
  show "lroundf (fmul (to_f32 (d / 360))
                      (F32 (of_int (sint (osr * getMicrostepResolution g))))) = Some n"
    using n by (simp only: deg_code_form [OF v o])
qed

lemma deg_returns:
  assumes v: "getMicrostepResolution g \<in> {1, 2, 4, 8, 16}"
    and o: "getOutputStepsPerRotation g = Some osr"
    and d: "\<bar>d\<bar> \<le> 2 ^ 100"
    and p: "\<bar>d / 360 * of_int (sint (osr * getMicrostepResolution g))\<bar> \<le> 2 ^ 30"
  shows "\<exists>n. degToMicrosteps g (F32 d) = Some n"
proof -
  have "\<exists>n. lroundf (fmul (to_f32 (d / 360))
                          (F32 (of_int (sint (osr * getMicrostepResolution g))))) = Some n"
  proof (rule two_step_lroundf_returns [OF _ _ p])
    show "\<bar>of_int (sint (osr * getMicrostepResolution g)) :: rat\<bar> \<le> 2 ^ 31
            \<or> d / 360 = 0 \<or> 1 \<le> \<bar>d / 360\<bar>"
      using of_int_sint_bound [of "osr * getMicrostepResolution g"] by blast
    have "\<bar>d / 360\<bar> \<le> \<bar>d\<bar>"
      by (simp add: abs_divide field_simps)
    also have "\<dots> < 2 ^ 127"
      using d by simp
    finally show "\<bar>d / 360\<bar> < 2 ^ 127" .
  qed
  then show ?thesis
    by (simp only: deg_code_form [OF v o])
qed

lemma fits_long:
  fixes a b :: "32 word"
  assumes "- (2 ^ 31) \<le> sint a * sint b" and "sint a * sint b < 2 ^ 31"
  shows "sint (a * b) = sint a * sint b"
proof -
  have "sint (a * b) = signed_take_bit 31 (sint a * sint b)"
    by (simp add: sint_word_ariths)
  then show ?thesis
    using assms by (simp add: signed_take_bit_int_eq_self)
qed

lemma pan_example:
  assumes "base_steps_per_rot g = 100" and "gear_ratio g = to_f32 (11335 / 1000)"
    and "microstep_resolution g = 16"
  shows "degToMicrosteps g (F32 45) = Some 2268"
proof -
  have a: "lroundf (fmul (long_to_float 100) (to_f32 (11335 / 1000))) = Some 1134"
    by code_simp
  have b: "lroundf (fmul (fdiv (F32 45) (F32 360)) (long_to_float (1134 * 16))) = Some 2268"
    by code_simp
  show ?thesis
    using a b
    by (simp add: degToMicrosteps_def getOutputStepsPerRotation_def getMicrostepResolution_def assms)
qed

section \<open>Degrees to pulses\<close>

text \<open>
  C6.  For a resolution of 1, 2, 4, 8 or 16, the conversion of 360 degrees is the product
  of the step count of a revolution and the resolution, the \<^verbatim>\<open>long\<close> product of the code:
  the quotient 360 / 360 is 1, and the product is a value that a \<^verbatim>\<open>float\<close> holds exactly,
  because the step count is itself the rounding of a \<^verbatim>\<open>float\<close>.  Where the product fits a
  \<^verbatim>\<open>long\<close>, the result is the product of the integers.
\<close>

theorem full_turn_exact:
  assumes "getMicrostepResolution g \<in> {1, 2, 4, 8, 16}"
  shows "degToMicrosteps g (F32 360) =
           map_option (\<lambda>osr. osr * getMicrostepResolution g) (getOutputStepsPerRotation g)
       \<and> (\<forall>osr. getOutputStepsPerRotation g = Some osr
              \<and> - (2 ^ 31) \<le> sint osr * sint (getMicrostepResolution g)
              \<and> sint osr * sint (getMicrostepResolution g) < 2 ^ 31
            \<longrightarrow> (\<exists>n. degToMicrosteps g (F32 360) = Some n
                     \<and> sint n = sint osr * sint (getMicrostepResolution g)))"
proof -
  have main: "degToMicrosteps g (F32 360) =
           map_option (\<lambda>osr. osr * getMicrostepResolution g) (getOutputStepsPerRotation g)"
  proof (cases "getOutputStepsPerRotation g")
    case None
    then show ?thesis
      by (simp add: degToMicrosteps_def)
  next
    case (Some osr)
    from valid_resolution_pow2 [OF assms] obtain k where k: "getMicrostepResolution g = 2 ^ k"
      by blast
    define mu where "mu = osr * getMicrostepResolution g"
    from osr_shape [OF Some] obtain m j where mj: "sint osr = m * 2 ^ j" "\<bar>m\<bar> \<le> 2 ^ 24"
      by blast
    have "sint mu = signed_take_bit 31 (m * 2 ^ (j + k))"
      unfolding mu_def k sint_times_pow2 mj(1) by (simp add: power_add mult.assoc)
    with wrap_shape [OF mj(2), of "j + k"] obtain m' j' where
      "sint mu = m' * 2 ^ j'" "\<bar>m'\<bar> \<le> 2 ^ 24"
      by auto
    then have f: "long_to_float mu = F32 (of_int (sint mu))"
      by (rule long_to_float_exact)
    have "degToMicrosteps g (F32 360) = lroundf (fmul (fdiv (F32 360) (F32 360)) (long_to_float mu))"
      by (simp add: degToMicrosteps_def Some mu_def)
    also have "fdiv (F32 360) (F32 360) = F32 1"
      by (simp add: to_f32_one)
    also have "fmul (F32 1) (long_to_float mu) = long_to_float mu"
      using f by (simp only: long_to_float_def fmul.simps mult_1)
    also have "lroundf (long_to_float mu) = Some mu"
      unfolding f by (rule lroundf_of_sint)
    finally show ?thesis
      by (simp add: Some mu_def)
  qed
  have fit: "\<exists>n. degToMicrosteps g (F32 360) = Some n
                \<and> sint n = sint osr * sint (getMicrostepResolution g)"
    if "getOutputStepsPerRotation g = Some osr"
      and "- (2 ^ 31) \<le> sint osr * sint (getMicrostepResolution g)"
      and "sint osr * sint (getMicrostepResolution g) < 2 ^ 31" for osr
  proof -
    have "sint (osr * getMicrostepResolution g)
            = signed_take_bit 31 (sint osr * sint (getMicrostepResolution g))"
      by (simp add: sint_word_ariths)
    also have "\<dots> = sint osr * sint (getMicrostepResolution g)"
      using that(2,3) by (simp add: signed_take_bit_int_eq_self)
    finally show ?thesis
      using main that(1) by simp
  qed
  show ?thesis
    using main fit by blast
qed

theorem full_turn_exact_witness:
  "getMicrostepResolution (turntableStepper bench_world) \<in> {1, 2, 4, 8, 16}
   \<and> degToMicrosteps (turntableStepper bench_world) (F32 360) = Some 18144"
proof -
  have r: "getMicrostepResolution (turntableStepper bench_world) = 16"
    by code_simp
  have o: "getOutputStepsPerRotation (turntableStepper bench_world) = Some 1134"
    by code_simp
  have v: "getMicrostepResolution (turntableStepper bench_world) \<in> {1, 2, 4, 8, 16}"
    by (simp add: r)
  show ?thesis
    using full_turn_exact [OF v] v by (simp add: r o)
qed

text \<open>
  C5.  \<^verbatim>\<open>degToMicrosteps\<close> computes the formula in single precision.  For a resolution of
  1, 2, 4, 8 or 16, a step count \<open>osr\<close> whose product with the resolution \<open>ms\<close> fits a \<^verbatim>\<open>long\<close>,
  and a finite argument \<open>d\<close>, write \<open>e\<close> for the exact value \<open>d / 360 * osr * ms\<close>.  The step
  count is within 1/2 + (|p| + 1) / 2^22 of the exact product \<open>p\<close> of base step count and
  gear ratio; a returned pulse count is within 1/2 + (|e| + 1) / 2^22 of \<open>e\<close>; one is
  returned while \<open>|d| \<le> 2^100\<close> and \<open>|e| \<le> 2^30\<close>, and while \<open>|e| \<le> 2^20\<close> it is at most one
  pulse away from \<open>round(e)\<close>.  For 100 base steps and gear ratio 11.335 at resolution 16, a
  revolution has 1134 steps and 45 degrees are 2268 pulses, the value of the formula.
\<close>

theorem degToMicrosteps_near_formula:
  assumes v: "getMicrostepResolution g \<in> {1, 2, 4, 8, 16}"
    and o: "getOutputStepsPerRotation g = Some osr"
    and fit: "- (2 ^ 31) \<le> sint osr * sint (getMicrostepResolution g)"
      "sint osr * sint (getMicrostepResolution g) < 2 ^ 31"
  shows "(\<forall>r. getGearRatio g = F32 r \<longrightarrow>
            \<bar>of_int (sint osr) - of_int (sint (getBaseStepsPerRotation g)) * r\<bar>
              \<le> 1 / 2 + (\<bar>of_int (sint (getBaseStepsPerRotation g)) * r\<bar> + 1) / 2 ^ 22)
       \<and> (\<forall>n. degToMicrosteps g (F32 d) = Some n \<longrightarrow>
            \<bar>of_int (sint n)
               - d / 360 * of_int (sint osr) * of_int (sint (getMicrostepResolution g))\<bar>
              \<le> 1 / 2
                + (\<bar>d / 360 * of_int (sint osr) * of_int (sint (getMicrostepResolution g))\<bar> + 1)
                    / 2 ^ 22)
       \<and> (\<bar>d\<bar> \<le> 2 ^ 100
            \<and> \<bar>d / 360 * of_int (sint osr) * of_int (sint (getMicrostepResolution g))\<bar> \<le> 2 ^ 30
          \<longrightarrow> degToMicrosteps g (F32 d) \<noteq> None)
       \<and> (\<bar>d\<bar> \<le> 2 ^ 100
            \<and> \<bar>d / 360 * of_int (sint osr) * of_int (sint (getMicrostepResolution g))\<bar> \<le> 2 ^ 20
          \<longrightarrow> (\<exists>n. degToMicrosteps g (F32 d) = Some n
                   \<and> \<bar>sint n - spec_degreesToPulses d (sint osr)
                                  (sint (getMicrostepResolution g))\<bar> \<le> 1))
       \<and> (base_steps_per_rot g = 100 \<and> gear_ratio g = to_f32 (11335 / 1000)
            \<and> microstep_resolution g = 16
          \<longrightarrow> osr = 1134 \<and> degToMicrosteps g (F32 45) = Some 2268
              \<and> spec_degreesToPulses 45 (spec_outputStepsPerRev 100 (11335 / 1000)) 16 = 2268)"
proof -
  define ms where "ms = getMicrostepResolution g"
  define e :: rat where "e = d / 360 * of_int (sint osr) * of_int (sint ms)"
  have mu: "(of_int (sint (osr * ms)) :: rat) = of_int (sint osr) * of_int (sint ms)"
    using fits_long [OF fit] by (simp only: ms_def of_int_mult)
  have e: "d / 360 * of_int (sint (osr * ms)) = e"
    by (simp only: mu e_def mult.assoc)
  have near: "\<bar>of_int (sint n) - e\<bar> \<le> 1 / 2 + (\<bar>e\<bar> + 1) / 2 ^ 22"
    if "degToMicrosteps g (F32 d) = Some n" for n
    using deg_near [OF v o that] by (simp only: e ms_def [symmetric])
  have returns: "\<exists>n. degToMicrosteps g (F32 d) = Some n" if "\<bar>d\<bar> \<le> 2 ^ 100" "\<bar>e\<bar> \<le> 2 ^ 30"
  proof (rule deg_returns [OF v o that(1)])
    show "\<bar>d / 360 * of_int (sint (osr * getMicrostepResolution g))\<bar> \<le> 2 ^ 30"
      using that(2) by (simp only: e ms_def [symmetric])
  qed
  have one: "\<exists>n. degToMicrosteps g (F32 d) = Some n
                \<and> \<bar>sint n - spec_degreesToPulses d (sint osr) (sint ms)\<bar> \<le> 1"
    if "\<bar>d\<bar> \<le> 2 ^ 100" "\<bar>e\<bar> \<le> 2 ^ 20"
  proof -
    have "\<bar>e\<bar> \<le> 2 ^ 30"
      using that(2) by simp
    from returns [OF that(1) this] obtain n where n: "degToMicrosteps g (F32 d) = Some n" ..
    have "\<bar>sint n - round_away e\<bar> \<le> 1"
      using near [OF n] that(2) by (rule within_one)
    then show ?thesis
      using n by (simp only: spec_degreesToPulses_def e_def) blast
  qed
  have osr: "\<bar>of_int (sint osr) - of_int (sint (getBaseStepsPerRotation g)) * r\<bar>
              \<le> 1 / 2 + (\<bar>of_int (sint (getBaseStepsPerRotation g)) * r\<bar> + 1) / 2 ^ 22"
    if "getGearRatio g = F32 r" for r
    using osr_near [OF o, of r] that by (simp only: getGearRatio_def getBaseStepsPerRotation_def)
  have example: "osr = 1134 \<and> degToMicrosteps g (F32 45) = Some 2268
              \<and> spec_degreesToPulses 45 (spec_outputStepsPerRev 100 (11335 / 1000)) 16 = 2268"
    if a: "base_steps_per_rot g = 100 \<and> gear_ratio g = to_f32 (11335 / 1000)
            \<and> microstep_resolution g = 16"
  proof -
    have "lroundf (fmul (long_to_float 100) (to_f32 (11335 / 1000))) = Some 1134"
      by code_simp
    then have "getOutputStepsPerRotation g = Some 1134"
      using a by (simp add: getOutputStepsPerRotation_def)
    then have "osr = 1134"
      using o by simp
    moreover have "degToMicrosteps g (F32 45) = Some 2268"
      using a by (intro pan_example) simp_all
    moreover have "spec_degreesToPulses 45 (spec_outputStepsPerRev 100 (11335 / 1000)) 16 = 2268"
      by code_simp
    ultimately show ?thesis
      by blast
  qed
  show ?thesis
    using osr near returns one example unfolding e_def ms_def by blast
qed

theorem degToMicrosteps_near_formula_witness:
  "\<exists>n. degToMicrosteps (turntableStepper bench_world) (F32 45) = Some n
       \<and> \<bar>sint n - spec_degreesToPulses 45 1134 16\<bar> \<le> 1"
proof -
  have r: "getMicrostepResolution (turntableStepper bench_world) = 16"
    by code_simp
  have o: "getOutputStepsPerRotation (turntableStepper bench_world) = Some 1134"
    by code_simp
  have v: "getMicrostepResolution (turntableStepper bench_world) \<in> {1, 2, 4, 8, 16}"
    by (simp add: r)
  have s: "sint (1134 :: 32 word) = 1134" "sint (16 :: 32 word) = 16"
    by simp_all
  have f: "- (2 ^ 31) \<le> sint (1134 :: 32 word) * sint (getMicrostepResolution (turntableStepper bench_world))"
    "sint (1134 :: 32 word) * sint (getMicrostepResolution (turntableStepper bench_world)) < 2 ^ 31"
    by (simp_all add: r)
  have d: "\<bar>45 :: rat\<bar> \<le> 2 ^ 100"
    by simp
  have e: "\<bar>45 / 360 * of_int 1134 * of_int 16 :: rat\<bar> \<le> 2 ^ 20"
    by simp
  show ?thesis
    using degToMicrosteps_near_formula [OF v o f, of 45] d e
    unfolding r s by blast
qed

text \<open>
  C5, as the specification words it, fails: for the pan axis at resolution 16 and the
  argument 1301.24 (stored as 1301.239990234375) the formula gives 65582.4955..., that is
  65582, where the single-precision product is 65582.5 and the code returns 65583.
\<close>

theorem degToMicrosteps_not_the_exact_rounding:
  "degToMicrosteps (turntableStepper bench_world) (F32 (5329879 / 4096)) = Some 65583
   \<and> to_f32 (130124 / 100) = F32 (5329879 / 4096)
   \<and> getOutputStepsPerRotation (turntableStepper bench_world) = Some 1134
   \<and> getMicrostepResolution (turntableStepper bench_world) = 16
   \<and> spec_degreesToPulses (5329879 / 4096) 1134 16 = 65582"
proof (intro conjI)
  show "degToMicrosteps (turntableStepper bench_world) (F32 (5329879 / 4096)) = Some 65583"
    by code_simp
  show "to_f32 (130124 / 100) = F32 (5329879 / 4096)"
    by code_simp
  show "getOutputStepsPerRotation (turntableStepper bench_world) = Some 1134"
    by code_simp
  show "getMicrostepResolution (turntableStepper bench_world) = 16"
    by code_simp
  show "spec_degreesToPulses (5329879 / 4096) 1134 16 = 65582"
    by code_simp
qed

text \<open>The tilt axis before \<^verbatim>\<open>setup\<close>, at resolution 1: 258 degrees are 3332.5 pulses exactly.\<close>

lemma tilt_258_degrees:
  "degToMicrosteps (tiltStepper (initial_world motor0 motor0 16 5 4 0 (\<lambda>p. False))) (F32 258)
     = Some 3332
   \<and> spec_degreesToPulses 258 4650 1 = 3333"
  by (intro conjI; code_simp)

section \<open>The steps of a revolution\<close>

text \<open>
  C9.  \<^verbatim>\<open>getOutputStepsPerRotation\<close> returns the rounding of the single-precision product of
  the base step count and the gear ratio: an integer within 1/2 + (|p| + 1) / 2^22 of the
  exact product \<open>p\<close>, hence at most one away from \<open>round(p)\<close> while \<open>|p| \<le> 2^20\<close>; it returns
  a value while \<open>|p| \<le> 2^30\<close>.  No call of \<^verbatim>\<open>setMicrostepResolution\<close>, for whatever
  resolution, and no sequence of such calls changes what it returns.
\<close>

theorem outputSteps_rounding_and_frame:
  "(\<forall>osr r. getOutputStepsPerRotation g = Some osr \<and> getGearRatio g = F32 r \<longrightarrow>
        \<bar>of_int (sint osr) - of_int (sint (getBaseStepsPerRotation g)) * r\<bar>
          \<le> 1 / 2 + (\<bar>of_int (sint (getBaseStepsPerRotation g)) * r\<bar> + 1) / 2 ^ 22
      \<and> (\<bar>of_int (sint (getBaseStepsPerRotation g)) * r\<bar> \<le> 2 ^ 20 \<longrightarrow>
           \<bar>sint osr - spec_outputStepsPerRev (sint (getBaseStepsPerRotation g)) r\<bar> \<le> 1))
   \<and> (\<forall>r. getGearRatio g = F32 r \<and> \<bar>of_int (sint (getBaseStepsPerRotation g)) * r\<bar> \<le> 2 ^ 30
          \<longrightarrow> getOutputStepsPerRotation g \<noteq> None)
   \<and> getOutputStepsPerRotation (fst (setMicrostepResolution res (g, io)))
       = getOutputStepsPerRotation g
   \<and> getOutputStepsPerRotation (fst (foldl (\<lambda>gio res. setMicrostepResolution res gio) (g, io) rs))
       = getOutputStepsPerRotation g"
proof (intro conjI allI impI)
  fix osr r
  assume a: "getOutputStepsPerRotation g = Some osr \<and> getGearRatio g = F32 r"
  then have n: "\<bar>of_int (sint osr) - of_int (sint (base_steps_per_rot g)) * r\<bar>
          \<le> 1 / 2 + (\<bar>of_int (sint (base_steps_per_rot g)) * r\<bar> + 1) / 2 ^ 22"
    using osr_near [of g osr r] by (simp only: getGearRatio_def)
  then show "\<bar>of_int (sint osr) - of_int (sint (getBaseStepsPerRotation g)) * r\<bar>
          \<le> 1 / 2 + (\<bar>of_int (sint (getBaseStepsPerRotation g)) * r\<bar> + 1) / 2 ^ 22"
    by (simp only: getBaseStepsPerRotation_def)
  assume "\<bar>of_int (sint (getBaseStepsPerRotation g)) * r\<bar> \<le> 2 ^ 20"
  then have "\<bar>of_int (sint (base_steps_per_rot g)) * r\<bar> \<le> 2 ^ 20"
    by (simp only: getBaseStepsPerRotation_def)
  from within_one [OF n this]
  show "\<bar>sint osr - spec_outputStepsPerRev (sint (getBaseStepsPerRotation g)) r\<bar> \<le> 1"
    by (simp only: spec_outputStepsPerRev_def getBaseStepsPerRotation_def)
next
  fix r
  assume "getGearRatio g = F32 r \<and> \<bar>of_int (sint (getBaseStepsPerRotation g)) * r\<bar> \<le> 2 ^ 30"
  then have "gear_ratio g = F32 r" "\<bar>of_int (sint (base_steps_per_rot g)) * r\<bar> \<le> 2 ^ 30"
    by (simp_all only: getGearRatio_def getBaseStepsPerRotation_def)
  from osr_returns [OF this] show "getOutputStepsPerRotation g \<noteq> None"
    by auto
next
  show "getOutputStepsPerRotation (fst (setMicrostepResolution res (g, io)))
       = getOutputStepsPerRotation g"
    by (simp add: setMicrostepResolution_fst getOutputStepsPerRotation_frame)
next
  show "getOutputStepsPerRotation (fst (foldl (\<lambda>gio res. setMicrostepResolution res gio) (g, io) rs))
       = getOutputStepsPerRotation g"
    using foldl_setMicrostepResolution [of "(g, io)" rs] by simp
qed

theorem outputSteps_rounding_and_frame_witness:
  "getOutputStepsPerRotation (turntableStepper bench_world) = Some 1134
   \<and> \<bar>sint (1134 :: 32 word) - spec_outputStepsPerRev 100 (fround (11335 / 1000))\<bar> \<le> 1
   \<and> getOutputStepsPerRotation
       (fst (foldl (\<lambda>gio res. setMicrostepResolution res gio)
               (turntableStepper bench_world, gpio bench_world) [1, 2, 4, 8, 16])) = Some 1134"
proof -
  have o: "getOutputStepsPerRotation (turntableStepper bench_world) = Some 1134"
    by code_simp
  have r: "getGearRatio (turntableStepper bench_world) = F32 (fround (11335 / 1000))"
    by code_simp
  have b: "sint (getBaseStepsPerRotation (turntableStepper bench_world)) = 100"
    by code_simp
  have p: "\<bar>of_int 100 * fround (11335 / 1000)\<bar> \<le> (2 ^ 20 :: rat)"
    by code_simp
  note t = outputSteps_rounding_and_frame
            [of "turntableStepper bench_world" 0 "gpio bench_world" "[1, 2, 4, 8, 16]",
              unfolded b]
  from t have "getOutputStepsPerRotation (turntableStepper bench_world) = Some 1134
        \<and> getGearRatio (turntableStepper bench_world) = F32 (fround (11335 / 1000)) \<longrightarrow>
        (\<bar>of_int 100 * fround (11335 / 1000)\<bar> \<le> (2 ^ 20 :: rat) \<longrightarrow>
           \<bar>sint (1134 :: 32 word) - spec_outputStepsPerRev 100 (fround (11335 / 1000))\<bar> \<le> 1)"
    by (elim conjE allE [of _ "1134 :: 32 word"] allE [of _ "fround (11335 / 1000)"]) blast
  then have n: "\<bar>sint (1134 :: 32 word) - spec_outputStepsPerRev 100 (fround (11335 / 1000))\<bar> \<le> 1"
    using o r p by blast
  from t have "getOutputStepsPerRotation
       (fst (foldl (\<lambda>gio res. setMicrostepResolution res gio)
               (turntableStepper bench_world, gpio bench_world) [1, 2, 4, 8, 16]))
       = getOutputStepsPerRotation (turntableStepper bench_world)"
    by (elim conjE)
  then show ?thesis
    using o n by simp
qed

text \<open>
  C9, as the specification words it, fails: for 100 base steps and the gear ratio 7.765 the
  stored ratio is 7.764999866..., the product 776.4999866... rounds to 776, but its
  single-precision value is 776.5 and the code returns 777.
\<close>

theorem outputSteps_not_the_exact_rounding:
  "getOutputStepsPerRotation (GearedStepper motor0 16 5 4 0 100 (to_f32 (7765 / 1000))) = Some 777
   \<and> to_f32 (7765 / 1000) = F32 (fround (7765 / 1000))
   \<and> spec_outputStepsPerRev 100 (fround (7765 / 1000)) = 776"
proof (intro conjI)
  show "getOutputStepsPerRotation (GearedStepper motor0 16 5 4 0 100 (to_f32 (7765 / 1000)))
          = Some 777"
    by code_simp
  show "to_f32 (7765 / 1000) = F32 (fround (7765 / 1000))"
    by code_simp
  show "spec_outputStepsPerRev 100 (fround (7765 / 1000)) = 776"
    by code_simp
qed

end
